theory Spec2Isabelle
  imports Complex_Main "HOL-Library.Product_Lexorder" "HOL-Library.AList" "HOL-Library.Sublist"
begin

section \<open>Python strings\<close>

text \<open>
  A Python \<open>str\<close> is a sequence of code points. The model is \<open>string\<close>, one \<open>char\<close>
  per code point, which covers the code points U+0000 to U+00FF (Latin-1); the tables
  below are Python's tables restricted to that range.
\<close>

abbreviation LF :: char where "LF \<equiv> CHR 0x0A"
abbreviation CR :: char where "CR \<equiv> CHR 0x0D"

text \<open>\<open>str.isspace\<close> on one code point: the characters \<open>str.strip()\<close> and \<open>str.split()\<close>
  remove, and the class \<open>\s\<close> of \<open>re\<close> on \<open>str\<close> patterns.\<close>

definition is_space :: "char \<Rightarrow> bool" where
  "is_space c = (let n = (of_char c :: nat) in
     (9 \<le> n \<and> n \<le> 13) \<or> (28 \<le> n \<and> n \<le> 32) \<or> n = 133 \<or> n = 160)"

text \<open>The line boundaries of \<open>str.splitlines()\<close>: \<open>\n \r \v \f \x1c \x1d \x1e \x85\<close>
  (and \<open>\r\n\<close> as one boundary).\<close>

definition is_linebreak :: "char \<Rightarrow> bool" where
  "is_linebreak c = (let n = (of_char c :: nat) in
     (10 \<le> n \<and> n \<le> 13) \<or> (28 \<le> n \<and> n \<le> 30) \<or> n = 133)"

definition lstrip :: "string \<Rightarrow> string" where
  "lstrip s = dropWhile is_space s"

definition rstrip :: "string \<Rightarrow> string" where
  "rstrip s = rev (dropWhile is_space (rev s))"

definition strip :: "string \<Rightarrow> string" where
  "strip s = lstrip (rstrip s)"

text \<open>\<open>sep.join(parts)\<close>.\<close>

fun join :: "string \<Rightarrow> string list \<Rightarrow> string" where
  "join sep [] = []"
| "join sep [x] = x"
| "join sep (x # y # ys) = x @ sep @ join sep (y # ys)"

text \<open>\<open>s.splitlines()\<close>: the lines without their boundaries; a boundary at the very end
  opens no further line.\<close>

function splitlines :: "string \<Rightarrow> string list" where
  "splitlines s =
     (if s = [] then []
      else (let line = takeWhile (\<lambda>c. \<not> is_linebreak c) s;
                rest = dropWhile (\<lambda>c. \<not> is_linebreak c) s
            in case rest of
                 [] \<Rightarrow> [line]
               | c # r \<Rightarrow>
                   (case r of
                      d # r' \<Rightarrow> if c = CR \<and> d = LF then line # splitlines r'
                                else line # splitlines r
                    | [] \<Rightarrow> [line])))"
  by pat_completeness auto
termination
proof (relation "measure length")
  show "wf (measure length)" by simp
next
  fix s :: string and line rest c r d r'
  assume "s \<noteq> []" and r: "rest = dropWhile (\<lambda>c. \<not> is_linebreak c) s"
    and "rest = c # r" and "r = d # r'"
  then have "length (c # d # r') \<le> length s"
    using length_dropWhile_le [of "\<lambda>c. \<not> is_linebreak c" s] by simp
  then show "(r', s) \<in> measure length" by simp
next
  fix s :: string and line rest c r d r'
  assume "s \<noteq> []" and r: "rest = dropWhile (\<lambda>c. \<not> is_linebreak c) s"
    and "rest = c # r" and "r = d # r'"
  then have "length (c # r) \<le> length s"
    using length_dropWhile_le [of "\<lambda>c. \<not> is_linebreak c" s] by simp
  then show "(r, s) \<in> measure length" by simp
qed

declare splitlines.simps [simp del]

section \<open>\<open>_ensure_markdown_title\<close>\<close>

text \<open>
  \<^verbatim>\<open>
  def _ensure_markdown_title(markdown, title):
      if not title:
          return markdown
      lines = markdown.splitlines()
      for idx, line in enumerate(lines):
          if line.strip():
              stripped = line.strip()
              if stripped == f"# {title}":
                  return markdown
              if stripped == title:
                  lines[idx] = f"# {title}"
                  return "\n".join(lines)
              return markdown
      return markdown
  \<close>
  The loop runs over \<open>enumerate(lines)\<close> and returns at the first line whose
  \<open>strip()\<close> is not empty.
\<close>

fun title_loop :: "string \<Rightarrow> string \<Rightarrow> string list \<Rightarrow> (nat \<times> string) list \<Rightarrow> string" where
  "title_loop markdown title lines [] = markdown"
| "title_loop markdown title lines ((idx, line) # rest) =
     (if strip line \<noteq> [] then
        (let stripped = strip line in
         if stripped = ''# '' @ title then markdown
         else if stripped = title then join [LF] (lines[idx := ''# '' @ title])
         else markdown)
      else title_loop markdown title lines rest)"

definition ensure_markdown_title :: "string \<Rightarrow> string option \<Rightarrow> string" where
  "ensure_markdown_title markdown title =
     (case title of
        None \<Rightarrow> markdown
      | Some t \<Rightarrow>
          if t = [] then markdown
          else (let lines = splitlines markdown
                in title_loop markdown t lines (enumerate 0 lines)))"

section \<open>The blank-line rule of \<open>_html_to_markdown\<close>\<close>

text \<open>
  \<^verbatim>\<open>markdown = re.sub(r"\n{3,}", "\n\n", markdown)\<close>
  \<open>re.sub\<close> scans from the left; where three newlines start, the greedy \<open>\n{3,}\<close> takes
  the whole run of newlines and two newlines are written; any other character is copied.
\<close>

function collapse_newlines :: "string \<Rightarrow> string" where
  "collapse_newlines s =
     (case s of
        [] \<Rightarrow> []
      | c # cs \<Rightarrow>
          if take 3 s = [LF, LF, LF]
          then [LF, LF] @ collapse_newlines (dropWhile (\<lambda>d. d = LF) s)
          else c # collapse_newlines cs)"
  by pat_completeness auto
termination
proof (relation "measure length")
  show "wf (measure length)" by simp
next
  fix s :: string and c cs
  assume "s = c # cs" and "take 3 s = [LF, LF, LF]"
  then have "dropWhile (\<lambda>d. d = LF) s = dropWhile (\<lambda>d. d = LF) cs"
    by auto
  then have "length (dropWhile (\<lambda>d. d = LF) s) \<le> length cs"
    by (simp add: length_dropWhile_le)
  with \<open>s = c # cs\<close> show "(dropWhile (\<lambda>d. d = LF) s, s) \<in> measure length"
    by simp
next
  fix s :: string and c cs
  assume "s = c # cs"
  then show "(cs, s) \<in> measure length" by simp
qed

declare collapse_newlines.simps [simp del]

section \<open>\<open>_score_image_url\<close> and \<open>_pick_best_image_url\<close>\<close>

text \<open>\<open>str.lower()\<close> on one code point of the Latin-1 range.\<close>

definition lower_char :: "char \<Rightarrow> char" where
  "lower_char c = (let n = (of_char c :: nat) in
     if (65 \<le> n \<and> n \<le> 90) \<or> (192 \<le> n \<and> n \<le> 222 \<and> n \<noteq> 215)
     then char_of (n + 32) else c)"

definition lower :: "string \<Rightarrow> string" where
  "lower s = map lower_char s"

text \<open>The class \<open>\w\<close> of \<open>re\<close> on \<open>str\<close> patterns: \<open>str.isalnum\<close> or the underscore.\<close>

definition is_word_char :: "char \<Rightarrow> bool" where
  "is_word_char c = (let n = (of_char c :: nat) in
     (48 \<le> n \<and> n \<le> 57) \<or> (65 \<le> n \<and> n \<le> 90) \<or> (97 \<le> n \<and> n \<le> 122) \<or> n = 95
     \<or> n = 170 \<or> n = 178 \<or> n = 179 \<or> n = 181 \<or> n = 185 \<or> n = 186
     \<or> (188 \<le> n \<and> n \<le> 190) \<or> (192 \<le> n \<and> n \<le> 214) \<or> (216 \<le> n \<and> n \<le> 246)
     \<or> 248 \<le> n)"

text \<open>
  \<^verbatim>\<open>
  def _score_image_url(url):
      match = re.search(r"_(xs|s|m|l|xl)(?:\b|\.|_)", url, re.IGNORECASE)
      if not match:
          return 0
      size = match.group(1).lower()
      return {"xs": 1, "s": 2, "m": 3, "l": 4, "xl": 5}.get(size, 0)
  \<close>
  \<open>size_tail\<close> is the group \<open>(?:\b|\.|_)\<close> right after a size token, whose last character
  is a word character: \<open>\b\<close> holds at the end of the string or before a non-word
  character, else the next character has to be a dot or an underscore.
  \<open>match_size_at\<close> is one attempt of the pattern at the start of its argument: the
  alternatives are tried in the order of the pattern, and the value is group 1.
  \<open>re_search_size\<close> is \<open>re.search\<close>: the attempt at the leftmost position that matches.
\<close>

definition size_tail :: "string \<Rightarrow> bool" where
  "size_tail rest =
     (case rest of
        [] \<Rightarrow> True
      | c # _ \<Rightarrow> \<not> is_word_char c \<or> c = CHR ''.'' \<or> c = CHR ''_'')"

definition size_alternatives :: "string list" where
  "size_alternatives = [''xs'', ''s'', ''m'', ''l'', ''xl'']"

definition match_size_at :: "string \<Rightarrow> string option" where
  "match_size_at s =
     (case s of
        [] \<Rightarrow> None
      | c # cs \<Rightarrow>
          if c = CHR ''_'' then
            (case find (\<lambda>tok. length tok \<le> length cs \<and> lower (take (length tok) cs) = tok
                               \<and> size_tail (drop (length tok) cs)) size_alternatives of
               None \<Rightarrow> None
             | Some tok \<Rightarrow> Some (take (length tok) cs))
          else None)"

fun re_search_size :: "string \<Rightarrow> string option" where
  "re_search_size [] = None"
| "re_search_size (c # cs) =
     (case match_size_at (c # cs) of
        Some g \<Rightarrow> Some g
      | None \<Rightarrow> re_search_size cs)"

definition score_image_url :: "string \<Rightarrow> int" where
  "score_image_url url =
     (case re_search_size url of
        None \<Rightarrow> 0
      | Some g \<Rightarrow>
          (case map_of [(''xs'', 1), (''s'', 2), (''m'', 3), (''l'', 4), (''xl'', 5)] (lower g) of
             None \<Rightarrow> 0
           | Some v \<Rightarrow> v))"

text \<open>
  \<^verbatim>\<open>
  def _pick_best_image_url(urls):
      if not urls:
          return None
      scored = [(idx, _score_image_url(url), url) for idx, url in enumerate(urls)]
      scored.sort(key=lambda item: (item[1], -item[0]))
      return scored[-1][2]
  \<close>
  \<open>list.sort\<close> is a stable sort by the key, as \<open>sort_key\<close> is; the keys are pairs of
  integers compared lexicographically.
\<close>

definition pick_best_image_url :: "string list \<Rightarrow> string option" where
  "pick_best_image_url urls =
     (if urls = [] then None
      else (let scored = map (\<lambda>(idx, url). (idx, score_image_url url, url)) (enumerate 0 urls);
                sorted_items = sort_key (\<lambda>(idx, sc, url). (sc, - int idx)) scored
            in Some (snd (snd (last sorted_items)))))"

section \<open>\<open>validate_url\<close>\<close>

text \<open>
  The exceptions of the program. \<open>ExtractionError\<close> is the program's own class (a
  subclass of \<open>ValueError\<close>); the others are raised by Python or by the libraries.
\<close>

datatype error =
    ExtractionError string
  | ValueError
  | AttributeError
  | TypeError


definition endswith :: "string \<Rightarrow> string \<Rightarrow> bool" where
  "endswith s suf = (length suf \<le> length s \<and> drop (length s - length suf) s = suf)"


section \<open>More string operations\<close>

text \<open>\<open>needle in s\<close> and \<open>s.startswith(prefix)\<close>.\<close>

fun contains :: "string \<Rightarrow> string \<Rightarrow> bool" where
  "contains needle [] = (needle = [])"
| "contains needle (c # cs) = (take (length needle) (c # cs) = needle \<or> contains needle cs)"

definition startswith :: "string \<Rightarrow> string \<Rightarrow> bool" where
  "startswith s pre = (take (length pre) s = pre)"

text \<open>\<open>s.split()\<close>: the maximal runs of characters that are not whitespace.\<close>

function py_split :: "string \<Rightarrow> string list" where
  "py_split s =
     (let s' = dropWhile is_space s
      in if s' = [] then []
         else takeWhile (\<lambda>c. \<not> is_space c) s' # py_split (dropWhile (\<lambda>c. \<not> is_space c) s'))"
  by pat_completeness auto
termination
proof (relation "measure length")
  show "wf (measure length)" by simp
next
  fix s s' :: string
  assume s': "s' = dropWhile is_space s" and ne: "s' \<noteq> []"
  then have "\<not> is_space (hd s')" using hd_dropWhile [of is_space s] by simp
  with ne have "dropWhile (\<lambda>c. \<not> is_space c) s' = dropWhile (\<lambda>c. \<not> is_space c) (tl s')"
    by (cases s') auto
  then have "length (dropWhile (\<lambda>c. \<not> is_space c) s') \<le> length (tl s')"
    using length_dropWhile_le [of "\<lambda>c. \<not> is_space c" "tl s'"] by simp
  also have "\<dots> < length s'" using ne by (cases s') auto
  also have "\<dots> \<le> length s" using s' by (simp add: length_dropWhile_le)
  finally show "(dropWhile (\<lambda>c. \<not> is_space c) s', s) \<in> measure length" by simp
qed

declare py_split.simps [simp del]

text \<open>
  \<open>str.casefold()\<close> and \<open>str.upper()\<close> on the Latin-1 range. Both change the letters
  as \<open>lower\<close> does (in the other direction for \<open>upper\<close>) and write the sharp s as two
  letters. Python maps the micro sign, and \<open>upper\<close> the letter \<open>y\<close> with diaeresis, to
  code points beyond U+00FF; the model leaves these two characters as they are.
\<close>

definition casefold :: "string \<Rightarrow> string" where
  "casefold s = concat (map (\<lambda>c. if c = CHR 0xDF then ''ss'' else [lower_char c]) s)"

definition upper_char :: "char \<Rightarrow> char" where
  "upper_char c = (let n = (of_char c :: nat) in
     if (97 \<le> n \<and> n \<le> 122) \<or> (224 \<le> n \<and> n \<le> 254 \<and> n \<noteq> 247)
     then char_of (n - 32) else c)"

definition upper :: "string \<Rightarrow> string" where
  "upper s = concat (map (\<lambda>c. if c = CHR 0xDF then ''SS'' else [upper_char c]) s)"

text \<open>
  \<open>re.compile(r"(a|b|...)", re.IGNORECASE).search(s)\<close> for alternatives that are words
  of lower-case ASCII letters: one of them occurs in \<open>s\<close>, letter case apart.
\<close>

definition search_keywords :: "string list \<Rightarrow> string \<Rightarrow> bool" where
  "search_keywords alternatives s = list_ex (\<lambda>alt. contains alt (lower s)) alternatives"

section \<open>The document tree\<close>

text \<open>
  The tree that \<open>BeautifulSoup(html, "lxml")\<close> builds. An element carries an identity
  (Python compares tags with \<open>is\<close>, and the loops of the program hold references to tags
  while they change the tree), its name, its attributes and its children. \<open>Text\<close> is a
  plain \<open>NavigableString\<close>. \<open>Other\<close> is a string of another class (comment, doctype, the
  content of \<open>script\<close>, \<open>style\<close> and \<open>template\<close>), which \<open>get_text\<close> leaves out.
  The value of the \<open>class\<close> attribute is kept as written; bs4 splits it at whitespace
  into a list.
\<close>

datatype node =
    Text string
  | Other string
  | Elem nat string "(string \<times> string) list" "node list"

text \<open>\<open>tag.descendants\<close>: every node below the tag, in document order.\<close>

fun descendants :: "node \<Rightarrow> node list" where
  "descendants (Text s) = []"
| "descendants (Other s) = []"
| "descendants (Elem i nm a cs) = concat (map (\<lambda>c. c # descendants c) cs)"

definition is_tag :: "string list \<Rightarrow> node \<Rightarrow> bool" where
  "is_tag names n = (case n of Elem i nm a cs \<Rightarrow> nm \<in> set names | _ \<Rightarrow> False)"

definition is_elem :: "node \<Rightarrow> bool" where
  "is_elem n = (case n of Elem i nm a cs \<Rightarrow> True | _ \<Rightarrow> False)"

definition has_id :: "nat \<Rightarrow> node \<Rightarrow> bool" where
  "has_id i n = (case n of Elem j nm a cs \<Rightarrow> j = i | _ \<Rightarrow> False)"

text \<open>The identities of a list of tags, and of all tags of a tree (the root included).\<close>

definition ids_of :: "node list \<Rightarrow> nat list" where
  "ids_of ns = concat (map (\<lambda>n. case n of Elem i nm a cs \<Rightarrow> [i] | _ \<Rightarrow> []) ns)"

definition ids :: "node \<Rightarrow> nat list" where
  "ids t = ids_of (t # descendants t)"

text \<open>\<open>tag.find_all(names)\<close>, \<open>tag.find_all(True)\<close> and \<open>tag.find(name)\<close>.\<close>

definition find_all :: "string list \<Rightarrow> node \<Rightarrow> node list" where
  "find_all names t = filter (is_tag names) (descendants t)"

definition find_all_tags :: "node \<Rightarrow> node list" where
  "find_all_tags t = filter is_elem (descendants t)"

definition find_tag :: "string \<Rightarrow> node \<Rightarrow> node option" where
  "find_tag nm t = (case find_all [nm] t of [] \<Rightarrow> None | n # _ \<Rightarrow> Some n)"

text \<open>
  The tag with identity \<open>i\<close> as it is now in the tree \<open>t\<close>; \<open>None\<close> when it is no longer
  in the tree, which in this program means that it was destroyed by \<open>decompose()\<close>, on
  itself or on a tag around it.
\<close>

definition lookup :: "nat \<Rightarrow> node \<Rightarrow> node option" where
  "lookup i t = find (has_id i) (descendants t)"

text \<open>\<open>tag.get(key)\<close>, and \<open>" ".join(tag.get("class", []))\<close>.\<close>

definition attrs_of :: "node \<Rightarrow> (string \<times> string) list" where
  "attrs_of n = (case n of Elem i nm a cs \<Rightarrow> a | _ \<Rightarrow> [])"

definition children_of :: "node \<Rightarrow> node list" where
  "children_of n = (case n of Elem i nm a cs \<Rightarrow> cs | _ \<Rightarrow> [])"

definition name_of :: "node \<Rightarrow> string" where
  "name_of n = (case n of Elem i nm a cs \<Rightarrow> nm | _ \<Rightarrow> [])"

definition get_attr :: "node \<Rightarrow> string \<Rightarrow> string option" where
  "get_attr n key = map_of (attrs_of n) key"

definition class_text :: "node \<Rightarrow> string" where
  "class_text n = (case get_attr n ''class'' of None \<Rightarrow> [] | Some v \<Rightarrow> join '' '' (py_split v))"

text \<open>
  \<open>tag.get_text(" ", strip=True)\<close>: the plain strings below the tag, each stripped,
  the empty ones dropped, joined by one space.
\<close>

fun strings :: "node \<Rightarrow> string list" where
  "strings (Text s) = [s]"
| "strings (Other s) = []"
| "strings (Elem i nm a cs) = concat (map strings cs)"

definition get_text :: "node \<Rightarrow> string" where
  "get_text n = join '' '' (filter (\<lambda>s. s \<noteq> []) (map strip (concat (map strings (children_of n)))))"

text \<open>
  \<open>tag.decompose()\<close> on the tag with identity \<open>i\<close>: the tag and everything below it
  leave the tree. On a tag that is no longer in the tree nothing changes.
\<close>

fun remove_id :: "nat \<Rightarrow> node \<Rightarrow> node" where
  "remove_id i (Text s) = Text s"
| "remove_id i (Other s) = Other s"
| "remove_id i (Elem j nm a cs) = Elem j nm a (map (remove_id i) (filter (\<lambda>c. \<not> has_id i c) cs))"

text \<open>The names of the tags around the tag \<open>i\<close>, outermost first (\<open>tag.parents\<close>).\<close>

fun parents_of :: "nat \<Rightarrow> node \<Rightarrow> string list option" where
  "parents_of i (Text s) = None"
| "parents_of i (Other s) = None"
| "parents_of i (Elem j nm a cs) =
     (if list_ex (has_id i) cs then Some [nm]
      else (case find (\<lambda>r. r \<noteq> None) (map (parents_of i) cs) of
              Some (Some p) \<Rightarrow> Some (nm # p)
            | _ \<Rightarrow> None))"

section \<open>\<open>_remove_unwanted_tags\<close>\<close>

text \<open>
  \<^verbatim>\<open>
  def _remove_unwanted_tags(soup):
      for tag in soup.find_all(["script", "style", "noscript", "nav", "footer",
                                "aside", "svg", "form", "button"]):
          tag.decompose()
      for tag in soup.find_all("header"):
          if tag.find_parent("article") or tag.find_parent("main"):
              continue
          tag.decompose()
  \<close>
  \<open>find_all\<close> builds its list before the loop starts. A tag of the list that an
  earlier step destroyed has no parents, and \<open>decompose()\<close> on it changes nothing.
\<close>

definition unwanted_names :: "string list" where
  "unwanted_names = [''script'', ''style'', ''noscript'', ''nav'', ''footer'', ''aside'',
                     ''svg'', ''form'', ''button'']"

definition header_step :: "node \<Rightarrow> nat \<Rightarrow> node" where
  "header_step soup i =
     (case parents_of i soup of
        None \<Rightarrow> remove_id i soup
      | Some ps \<Rightarrow> if ''article'' \<in> set ps \<or> ''main'' \<in> set ps then soup else remove_id i soup)"

definition remove_unwanted_tags :: "node \<Rightarrow> node" where
  "remove_unwanted_tags soup =
     (let soup1 = foldl (\<lambda>t i. remove_id i t) soup (ids_of (find_all unwanted_names soup))
      in foldl header_step soup1 (ids_of (find_all [''header''] soup1)))"

section \<open>\<open>_select_container\<close>\<close>

text \<open>
  \<^verbatim>\<open>
  MIN_TEXT_LEN = 200
  KEYWORD_RE = re.compile(r"(article|content|pub|body)", re.IGNORECASE)

  def _select_container(soup):
      article = soup.find("article")
      if article:
          return article
      main = soup.find("main")
      if main:
          return main
      best = None
      best_len = 0
      for div in soup.find_all("div"):
          attrs = " ".join(filter(None, [div.get("id", ""), " ".join(div.get("class", []))]))
          if not KEYWORD_RE.search(attrs):
              continue
          text_len = len(div.get_text(" ", strip=True))
          if text_len > best_len:
              best = div
              best_len = text_len
      if best and best_len >= MIN_TEXT_LEN:
          return best
      return None
  \<close>
  A tag is true in a condition whatever its content (\<open>Tag.__bool__\<close>).
\<close>

definition MIN_TEXT_LEN :: nat where
  "MIN_TEXT_LEN = 200"

definition KEYWORD_RE :: "string \<Rightarrow> bool" where
  "KEYWORD_RE s = search_keywords [''article'', ''content'', ''pub'', ''body''] s"

definition id_class_text :: "node \<Rightarrow> string" where
  "id_class_text n =
     join '' '' (filter (\<lambda>s. s \<noteq> [])
       [case get_attr n ''id'' of None \<Rightarrow> [] | Some v \<Rightarrow> v, class_text n])"

fun best_div_loop :: "node option \<Rightarrow> nat \<Rightarrow> node list \<Rightarrow> node option \<times> nat" where
  "best_div_loop best best_len [] = (best, best_len)"
| "best_div_loop best best_len (d # divs) =
     (if \<not> KEYWORD_RE (id_class_text d) then best_div_loop best best_len divs
      else (let text_len = length (get_text d)
            in if text_len > best_len then best_div_loop (Some d) text_len divs
               else best_div_loop best best_len divs))"

definition select_container :: "node \<Rightarrow> node option" where
  "select_container soup =
     (case find_tag ''article'' soup of
        Some article \<Rightarrow> Some article
      | None \<Rightarrow>
          (case find_tag ''main'' soup of
             Some main \<Rightarrow> Some main
           | None \<Rightarrow>
               (case best_div_loop None 0 (find_all [''div''] soup) of
                  (Some best, best_len) \<Rightarrow> if best_len \<ge> MIN_TEXT_LEN then Some best else None
                | (None, best_len) \<Rightarrow> None)))"

section \<open>\<open>_extract_title\<close> and \<open>_find_title_node\<close>\<close>

text \<open>
  \<open>tag.string\<close>: the string of a tag with exactly one child, looked for through tags
  that have one child themselves. A string of any class counts.
\<close>

fun node_string :: "node \<Rightarrow> string option" where
  "node_string (Elem i nm a [Text s]) = Some s"
| "node_string (Elem i nm a [Other s]) = Some s"
| "node_string (Elem i nm a [Elem j nm' a' cs]) = node_string (Elem j nm' a' cs)"
| "node_string n = None"

text \<open>
  \<^verbatim>\<open>
  def _extract_title(container, soup, fallback):
      h1 = container.find("h1")
      if h1:
          text = h1.get_text(" ", strip=True)
          if text:
              return text
      if soup.title and soup.title.string:
          text = soup.title.string.strip()
          if text:
              return text
      if fallback:
          text = fallback.strip()
          if text:
              return text
      return None
  \<close>
  \<open>soup.title\<close> is \<open>soup.find("title")\<close>.
\<close>

definition title_from_fallback :: "string option \<Rightarrow> string option" where
  "title_from_fallback fallback =
     (case fallback of
        None \<Rightarrow> None
      | Some f \<Rightarrow> if f \<noteq> [] \<and> strip f \<noteq> [] then Some (strip f) else None)"

definition title_from_soup :: "node \<Rightarrow> string option \<Rightarrow> string option" where
  "title_from_soup soup fallback =
     (case find_tag ''title'' soup of
        None \<Rightarrow> title_from_fallback fallback
      | Some t \<Rightarrow>
          (case node_string t of
             None \<Rightarrow> title_from_fallback fallback
           | Some s \<Rightarrow>
               if s \<noteq> [] \<and> strip s \<noteq> [] then Some (strip s)
               else title_from_fallback fallback))"

definition extract_title :: "node \<Rightarrow> node \<Rightarrow> string option \<Rightarrow> string option" where
  "extract_title container soup fallback =
     (case find_tag ''h1'' container of
        None \<Rightarrow> title_from_soup soup fallback
      | Some h1 \<Rightarrow>
          (let text = get_text h1
           in if text \<noteq> [] then Some text else title_from_soup soup fallback))"

text \<open>
  \<^verbatim>\<open>
  def _find_title_node(container, title):
      if not title:
          return None
      for tag in container.find_all(["h1", "h2", "h3", "h4", "h5", "h6", "p", "div", "span"]):
          text = tag.get_text(" ", strip=True)
          if text == title:
              return tag
      return None
  \<close>
  The result is a reference to a tag: its identity.
\<close>

definition id_of :: "node \<Rightarrow> nat" where
  "id_of n = (case n of Elem i nm a cs \<Rightarrow> i | _ \<Rightarrow> 0)"

definition find_title_node :: "node \<Rightarrow> string option \<Rightarrow> nat option" where
  "find_title_node container title =
     (case title of
        None \<Rightarrow> None
      | Some t \<Rightarrow>
          if t = [] then None
          else map_option id_of
                 (find (\<lambda>tag. get_text tag = t)
                    (find_all [''h1'', ''h2'', ''h3'', ''h4'', ''h5'', ''h6'', ''p'', ''div'', ''span'']
                       container)))"

section \<open>\<open>_strip_metadata_blocks\<close>\<close>

text \<open>
  \<^verbatim>\<open>
  def _contains_node(parent, node):
      if node is None:
          return False
      if parent is node:
          return True
      for descendant in parent.descendants:
          if descendant is node:
              return True
      return False
  \<close>
  \<open>parent\<close> is the tag as it is now in the tree, \<open>node\<close> a reference.
\<close>

definition contains_node :: "node \<Rightarrow> nat option \<Rightarrow> bool" where
  "contains_node parent node =
     (case node of
        None \<Rightarrow> False
      | Some j \<Rightarrow> j \<in> set (ids parent))"

text \<open>
  \<^verbatim>\<open>
  METADATA_CLASS_RE = re.compile(
      r"(publication|issue|magazine|context|related|footer|language|promo|share)",
      re.IGNORECASE)
  ISSUE_RE = re.compile(r"\bwp\d{2}\b", re.IGNORECASE)
  \<close>
  \<open>ISSUE_RE.search\<close>: at some position, after the start of the string or a non-word
  character, the letters \<open>w\<close> and \<open>p\<close> in either case and two decimal digits, followed by
  the end of the string or a non-word character.
\<close>

definition METADATA_CLASS_RE :: "string \<Rightarrow> bool" where
  "METADATA_CLASS_RE s =
     search_keywords [''publication'', ''issue'', ''magazine'', ''context'', ''related'',
                      ''footer'', ''language'', ''promo'', ''share''] s"

definition is_digit :: "char \<Rightarrow> bool" where
  "is_digit c = (let n = (of_char c :: nat) in 48 \<le> n \<and> n \<le> 57)"

definition issue_match_at :: "char option \<Rightarrow> string \<Rightarrow> bool" where
  "issue_match_at prev s =
     ((case prev of None \<Rightarrow> True | Some b \<Rightarrow> \<not> is_word_char b)
      \<and> (case s of
            w # p # d1 # d2 # rest \<Rightarrow>
              lower_char w = CHR ''w'' \<and> lower_char p = CHR ''p'' \<and> is_digit d1 \<and> is_digit d2
              \<and> (case rest of [] \<Rightarrow> True | e # _ \<Rightarrow> \<not> is_word_char e)
          | _ \<Rightarrow> False))"

fun issue_search :: "char option \<Rightarrow> string \<Rightarrow> bool" where
  "issue_search prev [] = False"
| "issue_search prev (c # cs) = (issue_match_at prev (c # cs) \<or> issue_search (Some c) cs)"

definition ISSUE_RE :: "string \<Rightarrow> bool" where
  "ISSUE_RE s = issue_search None s"

text \<open>
  \<^verbatim>\<open>
  def _strip_metadata_blocks(container, title, title_node):
      candidates = list(container.find_all(["section", "div", "p", "ul", "ol", "li",
                                            "footer", "aside", "h2", "h3", "h4", "h5", "h6"]))
      for tag in candidates:
          if tag is container:
              continue
          if tag.parent is None:
              continue
          if _contains_node(tag, title_node):
              continue
          text = tag.get_text(" ", strip=True)
          if not text:
              continue
          normalized = " ".join(text.split())
          lowered = normalized.casefold()
          is_short = len(normalized) <= 250
          class_id = " ".join(filter(None, [tag.get("id", ""), " ".join(tag.get("class", []))]))
          if class_id and METADATA_CLASS_RE.search(class_id) and is_short:
              tag.decompose()
              continue
          upper = normalized.upper()
          if ("THE WATCHTOWER" in upper or "AWAKE!" in upper) and is_short:
              tag.decompose()
              continue
          if ISSUE_RE.search(normalized) and ("No." in normalized or "pp." in normalized or "pp " in normalized):
              if is_short:
                  tag.decompose()
                  continue
          if title and "english" in lowered and title.casefold() in lowered and is_short:
              tag.decompose()
  \<close>
  One step of the loop takes the container as it is now and a candidate reference.
  \<open>find_all\<close> lists tags below the container, never the container. A candidate whose
  \<open>parent\<close> is \<open>None\<close> is one that an earlier step destroyed.
\<close>

definition metadata_candidates :: "string list" where
  "metadata_candidates = [''section'', ''div'', ''p'', ''ul'', ''ol'', ''li'', ''footer'', ''aside'',
                          ''h2'', ''h3'', ''h4'', ''h5'', ''h6'']"

definition is_metadata :: "node \<Rightarrow> string option \<Rightarrow> bool" where
  "is_metadata tag title =
     (let text = get_text tag;
          normalized = join '' '' (py_split text);
          lowered = casefold normalized;
          is_short = (length normalized \<le> 250);
          class_id = id_class_text tag
      in if class_id \<noteq> [] \<and> METADATA_CLASS_RE class_id \<and> is_short then True
         else if (contains ''THE WATCHTOWER'' (upper normalized) \<or> contains ''AWAKE!'' (upper normalized))
                 \<and> is_short then True
         else if ISSUE_RE normalized
                 \<and> (contains ''No.'' normalized \<or> contains ''pp.'' normalized \<or> contains ''pp '' normalized)
                 \<and> is_short then True
         else (case title of
                 None \<Rightarrow> False
               | Some t \<Rightarrow> t \<noteq> [] \<and> contains ''english'' lowered \<and> contains (casefold t) lowered
                           \<and> is_short))"

definition metadata_step :: "string option \<Rightarrow> nat option \<Rightarrow> node \<Rightarrow> nat \<Rightarrow> node" where
  "metadata_step title title_node container i =
     (case lookup i container of
        None \<Rightarrow> container
      | Some tag \<Rightarrow>
          if contains_node tag title_node then container
          else if get_text tag = [] then container
          else if is_metadata tag title then remove_id i container
          else container)"

definition strip_metadata_blocks :: "node \<Rightarrow> string option \<Rightarrow> nat option \<Rightarrow> node" where
  "strip_metadata_blocks container title title_node =
     foldl (metadata_step title title_node) container
       (ids_of (find_all metadata_candidates container))"

section \<open>The libraries\<close>

text \<open>
  The functions of other packages that the program calls are parameters of the model:
  \<^item> \<open>parse_html\<close> is \<open>BeautifulSoup(html, "lxml")\<close>; every tag of its result has an
    identity of its own;
  \<^item> \<open>urljoin\<close> is \<open>urllib.parse.urljoin\<close>, which raises \<open>ValueError\<close> on some inputs;
  \<^item> \<open>json_loads\<close> is \<open>json.loads\<close>, \<open>None\<close> where it raises \<open>JSONDecodeError\<close>;
  \<^item> \<open>float_of\<close> is \<open>float\<close> on a string, \<open>None\<close> where it raises \<open>ValueError\<close>; the
    model takes the number as a rational, so descriptors that \<open>float\<close> reads as an
    infinity or as not-a-number are outside the model;
  \<^item> \<open>readability\<close> gives \<open>Document(html).summary(html_partial=True)\<close> and
    \<open>Document(html).title()\<close>;
  \<^item> \<open>markdownify\<close> is \<open>markdownify(str(container), heading_style="ATX", bullets="-")\<close>.
\<close>

datatype json =
    JObject "(string \<times> json) list"
  | JArray "json list"
  | JString string
  | JOther

record env =
  parse_html :: "string \<Rightarrow> node"
  urljoin :: "string \<Rightarrow> string \<Rightarrow> error + string"
  json_loads :: "string \<Rightarrow> json option"
  float_of :: "string \<Rightarrow> rat option"
  readability :: "string \<Rightarrow> error + (string \<times> string)"
  markdownify :: "node \<Rightarrow> string"

text \<open>A value that Python takes as true in a condition: a string that is not empty.\<close>

definition truthy :: "string option \<Rightarrow> bool" where
  "truthy v = (case v of None \<Rightarrow> False | Some s \<Rightarrow> s \<noteq> [])"

text \<open>\<open>a or b or ...\<close> where only a true result is used: the first true value, if any.\<close>

definition first_truthy :: "string option list \<Rightarrow> string option" where
  "first_truthy vs = (case find truthy vs of Some v \<Rightarrow> v | None \<Rightarrow> None)"

section \<open>\<open>_strip_player_controls\<close>\<close>

text \<open>
  \<^verbatim>\<open>
  PLAYER_CLASS_RE = re.compile(r"(player|audio|video|jwplayer|vjs|media|play)", re.IGNORECASE)

  def _attr_contains(tag, attr, needles):
      value = tag.get(attr)
      if not value:
          return False
      value = str(value).casefold()
      return any(needle in value for needle in needles)

  def _text_is_play(tag):
      text = tag.get_text(" ", strip=True)
      return text.casefold() == "play"
  \<close>
\<close>

definition PLAYER_CLASS_RE :: "string \<Rightarrow> bool" where
  "PLAYER_CLASS_RE s =
     search_keywords [''player'', ''audio'', ''video'', ''jwplayer'', ''vjs'', ''media'', ''play''] s"

definition attr_contains :: "node \<Rightarrow> string \<Rightarrow> string list \<Rightarrow> bool" where
  "attr_contains tag attr needles =
     (case get_attr tag attr of
        None \<Rightarrow> False
      | Some v \<Rightarrow> v \<noteq> [] \<and> list_ex (\<lambda>needle. contains needle (casefold v)) needles)"

definition text_is_play :: "node \<Rightarrow> bool" where
  "text_is_play tag = (casefold (get_text tag) = ''play'')"

text \<open>
  \<^verbatim>\<open>
  def _strip_player_controls(container):
      for tag in list(container.find_all(["audio", "video", "source", "track"])):
          tag.decompose()

      control_needles = ("play", "audio", "video")
      for tag in list(container.find_all(attrs={"aria-label": True})):
          if _attr_contains(tag, "aria-label", control_needles):
              tag.decompose()
      for tag in list(container.find_all(attrs={"title": True})):
          if _attr_contains(tag, "title", control_needles):
              tag.decompose()

      for tag in list(container.find_all(attrs={"role": True})):
          role = str(tag.get("role", "")).casefold()
          if role in {"button", "link"} and _text_is_play(tag):
              tag.decompose()

      for tag in list(container.find_all(True)):
          if not isinstance(tag, Tag) or tag.attrs is None:
              continue
          class_text = " ".join(tag.get("class", []))
          id_text = tag.get("id", "")
          if not (PLAYER_CLASS_RE.search(class_text) or PLAYER_CLASS_RE.search(id_text)):
              continue
          if tag.find("img") is not None or tag.find("picture") is not None:
              continue
          text_len = len(tag.get_text(" ", strip=True))
          if text_len <= 20:
              tag.decompose()
  \<close>
  \<open>decompose()\<close> empties the tag and every tag below it: after it, \<open>tag.attrs\<close> is
  \<open>None\<close> (bs4 answers a missing attribute of a tag with \<open>tag.find(name)\<close>), so
  \<open>tag.get(...)\<close> raises \<open>AttributeError\<close>. The second, third and fourth loop call
  \<open>tag.get\<close> on every tag of their list, the last loop tests \<open>tag.attrs is None\<close> first.
\<close>

definition control_needles :: "string list" where
  "control_needles = [''play'', ''audio'', ''video'']"

definition find_all_with_attr :: "string \<Rightarrow> node \<Rightarrow> node list" where
  "find_all_with_attr attr t = filter (\<lambda>n. is_elem n \<and> get_attr n attr \<noteq> None) (descendants t)"

fun attr_loop :: "string \<Rightarrow> node \<Rightarrow> nat list \<Rightarrow> error + node" where
  "attr_loop attr container [] = Inr container"
| "attr_loop attr container (i # rest) =
     (case lookup i container of
        None \<Rightarrow> Inl AttributeError
      | Some tag \<Rightarrow>
          if attr_contains tag attr control_needles then attr_loop attr (remove_id i container) rest
          else attr_loop attr container rest)"

fun role_loop :: "node \<Rightarrow> nat list \<Rightarrow> error + node" where
  "role_loop container [] = Inr container"
| "role_loop container (i # rest) =
     (case lookup i container of
        None \<Rightarrow> Inl AttributeError
      | Some tag \<Rightarrow>
          (let role = casefold (case get_attr tag ''role'' of None \<Rightarrow> [] | Some v \<Rightarrow> v)
           in if (role = ''button'' \<or> role = ''link'') \<and> text_is_play tag
              then role_loop (remove_id i container) rest
              else role_loop container rest))"

definition player_step :: "node \<Rightarrow> nat \<Rightarrow> node" where
  "player_step container i =
     (case lookup i container of
        None \<Rightarrow> container
      | Some tag \<Rightarrow>
          (let id_text = (case get_attr tag ''id'' of None \<Rightarrow> [] | Some v \<Rightarrow> v)
           in if \<not> (PLAYER_CLASS_RE (class_text tag) \<or> PLAYER_CLASS_RE id_text) then container
              else if find_tag ''img'' tag \<noteq> None \<or> find_tag ''picture'' tag \<noteq> None then container
              else if length (get_text tag) \<le> 20 then remove_id i container
              else container))"

definition strip_player_controls :: "node \<Rightarrow> error + node" where
  "strip_player_controls container =
     (let c1 = foldl (\<lambda>t i. remove_id i t) container
                 (ids_of (find_all [''audio'', ''video'', ''source'', ''track''] container))
      in case attr_loop ''aria-label'' c1 (ids_of (find_all_with_attr ''aria-label'' c1)) of
           Inl e \<Rightarrow> Inl e
         | Inr c2 \<Rightarrow>
             (case attr_loop ''title'' c2 (ids_of (find_all_with_attr ''title'' c2)) of
                Inl e \<Rightarrow> Inl e
              | Inr c3 \<Rightarrow>
                  (case role_loop c3 (ids_of (find_all_with_attr ''role'' c3)) of
                     Inl e \<Rightarrow> Inl e
                   | Inr c4 \<Rightarrow> Inr (foldl player_step c4 (ids_of (find_all_tags c4))))))"

section \<open>Links and images\<close>

text \<open>\<open>tag[key] = value\<close> and \<open>del tag.attrs[key]\<close> on the tag with identity \<open>i\<close>.\<close>

fun map_attrs :: "nat \<Rightarrow> ((string \<times> string) list \<Rightarrow> (string \<times> string) list) \<Rightarrow> node \<Rightarrow> node" where
  "map_attrs i f (Text s) = Text s"
| "map_attrs i f (Other s) = Other s"
| "map_attrs i f (Elem j nm a cs) = Elem j nm (if j = i then f a else a) (map (map_attrs i f) cs)"

definition set_attr :: "nat \<Rightarrow> string \<Rightarrow> string \<Rightarrow> node \<Rightarrow> node" where
  "set_attr i key v t = map_attrs i (AList.update key v) t"

text \<open>
  \<^verbatim>\<open>
  def _normalize_links(container, base_url):
      for anchor in container.find_all("a"):
          href = anchor.get("href")
          if not href:
              continue
          anchor["href"] = urljoin(base_url, href)
  \<close>
\<close>

fun links_loop :: "env \<Rightarrow> string \<Rightarrow> node \<Rightarrow> nat list \<Rightarrow> error + node" where
  "links_loop E base_url container [] = Inr container"
| "links_loop E base_url container (i # rest) =
     (case lookup i container of
        None \<Rightarrow> Inl AttributeError
      | Some anchor \<Rightarrow>
          (case get_attr anchor ''href'' of
             None \<Rightarrow> links_loop E base_url container rest
           | Some href \<Rightarrow>
               if href = [] then links_loop E base_url container rest
               else (case urljoin E base_url href of
                       Inl e \<Rightarrow> Inl e
                     | Inr u \<Rightarrow> links_loop E base_url (set_attr i ''href'' u container) rest)))"

definition normalize_links :: "env \<Rightarrow> node \<Rightarrow> string \<Rightarrow> error + node" where
  "normalize_links E container base_url =
     links_loop E base_url container (ids_of (find_all [''a''] container))"

text \<open>\<open>s.split(",")\<close>.\<close>

fun split_on :: "char \<Rightarrow> string \<Rightarrow> string list" where
  "split_on d [] = [[]]"
| "split_on d (c # cs) =
     (if c = d then [] # split_on d cs
      else (case split_on d cs of
              [] \<Rightarrow> [[c]]
            | w # ws \<Rightarrow> (c # w) # ws))"

text \<open>
  \<^verbatim>\<open>
  def _best_src_from_srcset(srcset):
      candidates = []
      for index, part in enumerate(srcset.split(",")):
          part = part.strip()
          if not part:
              continue
          pieces = part.split()
          url = pieces[0]
          score = 0.0
          if len(pieces) > 1:
              descriptor = pieces[1]
              if descriptor.endswith("w") or descriptor.endswith("x"):
                  try:
                      score = float(descriptor[:-1])
                  except ValueError:
                      score = 0.0
          candidates.append((score, index, url))
      if not candidates:
          return None
      candidates.sort(key=lambda item: (item[0], item[1]))
      return candidates[-1][2]
  \<close>
  A part that is not empty after \<open>strip()\<close> has a first piece.
\<close>

definition srcset_score :: "env \<Rightarrow> string list \<Rightarrow> rat" where
  "srcset_score E pieces =
     (case pieces of
        url # descriptor # _ \<Rightarrow>
          if endswith descriptor ''w'' \<or> endswith descriptor ''x''
          then (case float_of E (butlast descriptor) of None \<Rightarrow> 0 | Some q \<Rightarrow> q)
          else 0
      | _ \<Rightarrow> 0)"

fun srcset_candidates :: "env \<Rightarrow> (nat \<times> string) list \<Rightarrow> (rat \<times> nat \<times> string) list" where
  "srcset_candidates E [] = []"
| "srcset_candidates E ((index, part) # rest) =
     (case py_split (strip part) of
        [] \<Rightarrow> srcset_candidates E rest
      | url # others \<Rightarrow> (srcset_score E (url # others), index, url) # srcset_candidates E rest)"

definition best_src_from_srcset :: "env \<Rightarrow> string \<Rightarrow> string option" where
  "best_src_from_srcset E srcset =
     (let candidates = srcset_candidates E (enumerate 0 (split_on CHR '','' srcset))
      in if candidates = [] then None
         else Some (snd (snd (last (sort_key (\<lambda>(score, index, url). (score, index)) candidates)))))"

text \<open>
  \<^verbatim>\<open>
  def _normalize_img_tag(img, base_url):
      src = img.get("data-src") or img.get("src")
      if not src:
          for attr in ["data-original", "data-largest", "data-large",
                       "data-medium", "data-small", "data-smallest"]:
              src = img.get(attr)
              if src:
                  break
      if not src:
          srcset = img.get("srcset") or img.get("data-srcset")
          if srcset:
              src = _best_src_from_srcset(srcset)
      if not src:
          img.decompose()
          return None

      abs_src = urljoin(base_url, src)
      img["src"] = abs_src
      for attr in ["data-src", "data-srcset", "data-original", "data-largest", "data-large",
                   "data-medium", "data-small", "data-smallest", "srcset"]:
          if attr in img.attrs:
              del img.attrs[attr]
      return abs_src
  \<close>
  \<open>resolve_src\<close> is the part before \<open>urljoin\<close>: the source that is found, if any.
  The function returns its result and the tree after it.
\<close>

definition resolve_src :: "env \<Rightarrow> node \<Rightarrow> string option" where
  "resolve_src E img =
     (let src = first_truthy (map (get_attr img)
                  [''data-src'', ''src'', ''data-original'', ''data-largest'', ''data-large'',
                   ''data-medium'', ''data-small'', ''data-smallest''])
      in if truthy src then src
         else (let srcset = first_truthy [get_attr img ''srcset'', get_attr img ''data-srcset'']
               in case srcset of
                    None \<Rightarrow> None
                  | Some ss \<Rightarrow>
                      (case best_src_from_srcset E ss of
                         None \<Rightarrow> None
                       | Some u \<Rightarrow> if u = [] then None else Some u)))"

definition lazy_attrs :: "string list" where
  "lazy_attrs = [''data-src'', ''data-srcset'', ''data-original'', ''data-largest'', ''data-large'',
                 ''data-medium'', ''data-small'', ''data-smallest'', ''srcset'']"

definition normalize_img_tag :: "env \<Rightarrow> nat \<Rightarrow> string \<Rightarrow> node \<Rightarrow> error + (string option \<times> node)" where
  "normalize_img_tag E i base_url t =
     (case lookup i t of
        None \<Rightarrow> Inl AttributeError
      | Some img \<Rightarrow>
          (case resolve_src E img of
             None \<Rightarrow> Inr (None, remove_id i t)
           | Some src \<Rightarrow>
               (case urljoin E base_url src of
                  Inl e \<Rightarrow> Inl e
                | Inr abs_src \<Rightarrow>
                    Inr (Some abs_src,
                         map_attrs i (\<lambda>a. filter (\<lambda>kv. fst kv \<notin> set lazy_attrs)
                                            (AList.update ''src'' abs_src a)) t))))"

text \<open>
  \<^verbatim>\<open>
  def _normalize_images(container, base_url):
      for img in container.find_all("img"):
          _normalize_img_tag(img, base_url)
  \<close>
\<close>

fun images_loop :: "env \<Rightarrow> string \<Rightarrow> node \<Rightarrow> nat list \<Rightarrow> error + node" where
  "images_loop E base_url container [] = Inr container"
| "images_loop E base_url container (i # rest) =
     (case normalize_img_tag E i base_url container of
        Inl e \<Rightarrow> Inl e
      | Inr (r, container') \<Rightarrow> images_loop E base_url container' rest)"

definition normalize_images :: "env \<Rightarrow> node \<Rightarrow> string \<Rightarrow> error + node" where
  "normalize_images E container base_url =
     images_loop E base_url container (ids_of (find_all [''img''] container))"

section \<open>\<open>_normalize_figures\<close>\<close>

text \<open>
  \<open>figure.insert_after(img)\<close> takes the image out of the tree and puts it right after
  the figure, among the children of the figure's parent: \<open>move_after\<close> below, from
  \<open>insert_after\<close>, which puts a node after the tag with identity \<open>i\<close>.
\<close>

fun insert_after :: "nat \<Rightarrow> node \<Rightarrow> node \<Rightarrow> node" where
  "insert_after i new (Text s) = Text s"
| "insert_after i new (Other s) = Other s"
| "insert_after i new (Elem j nm a cs) =
     Elem j nm a (concat (map (\<lambda>c. if has_id i c then [insert_after i new c, new]
                                    else [insert_after i new c]) cs))"

text \<open>
  \<^verbatim>\<open>
  def _get_soup(node):
      if isinstance(node, BeautifulSoup):
          return node
      return node.soup
  \<close>
  The argument is always a \<open>figure\<close> tag, found by \<open>find_all\<close>, never the
  \<open>BeautifulSoup\<close> object. A bs4 tag has no attribute \<open>soup\<close>, and bs4 answers a
  missing attribute \<open>tag.x\<close> with \<open>tag.find("x")\<close>: the first tag named \<open>soup\<close> below
  the figure, or \<open>None\<close>.
\<close>

definition get_soup :: "node \<Rightarrow> node option" where
  "get_soup figure = find_tag ''soup'' figure"

text \<open>
  \<open>soup.new_tag("p")\<close> on the result of \<open>_get_soup\<close>. On \<open>None\<close> the attribute access
  raises \<open>AttributeError\<close>. On a tag, \<open>soup.new_tag\<close> is \<open>soup.find("new_tag")\<close>; calling
  \<open>None\<close> raises \<open>TypeError\<close>, and calling a tag is \<open>find_all\<close>, whose result list is no
  tag, so that \<open>img.insert_after(p_tag)\<close> raises \<open>AttributeError\<close>. No case builds the
  paragraph.
\<close>

definition new_caption_paragraph :: "node option \<Rightarrow> error" where
  "new_caption_paragraph soup =
     (case soup of
        None \<Rightarrow> AttributeError
      | Some s \<Rightarrow> (case find_tag ''new_tag'' s of None \<Rightarrow> TypeError | Some f \<Rightarrow> AttributeError))"

text \<open>
  \<^verbatim>\<open>
  def _normalize_figures(container, base_url):
      figures = list(container.find_all("figure"))
      for figure in figures:
          img = figure.find("img")
          if not img:
              figure.decompose()
              continue
          if _normalize_img_tag(img, base_url) is None:
              figure.decompose()
              continue
          caption_text = None
          figcaption = figure.find("figcaption")
          if figcaption:
              caption_text = figcaption.get_text(" ", strip=True) or None

          figure.insert_after(img)
          if caption_text:
              soup = _get_soup(figure)
              p_tag = soup.new_tag("p")
              em_tag = soup.new_tag("em")
              em_tag.string = caption_text
              p_tag.append(em_tag)
              img.insert_after(p_tag)
          figure.decompose()
  \<close>
  A figure of the list that an earlier step destroyed (a figure inside a figure) has
  nothing below it: \<open>find\<close> gives \<open>None\<close> and \<open>decompose()\<close> changes nothing.
\<close>

definition caption_text_of :: "node \<Rightarrow> string option" where
  "caption_text_of figure =
     (case find_tag ''figcaption'' figure of
        None \<Rightarrow> None
      | Some figcaption \<Rightarrow>
          (let t = get_text figcaption in if t = [] then None else Some t))"

definition move_after :: "nat \<Rightarrow> nat \<Rightarrow> node \<Rightarrow> node" where
  "move_after i j t =
     (case lookup j t of
        None \<Rightarrow> t
      | Some n \<Rightarrow> insert_after i n (remove_id j t))"

definition figure_step :: "env \<Rightarrow> string \<Rightarrow> node \<Rightarrow> nat \<Rightarrow> error + node" where
  "figure_step E base_url container i =
     (case lookup i container of
        None \<Rightarrow> Inr container
      | Some figure \<Rightarrow>
          (case find_tag ''img'' figure of
             None \<Rightarrow> Inr (remove_id i container)
           | Some img \<Rightarrow>
               (case normalize_img_tag E (id_of img) base_url container of
                  Inl e \<Rightarrow> Inl e
                | Inr (None, c1) \<Rightarrow> Inr (remove_id i c1)
                | Inr (Some abs_src, c1) \<Rightarrow>
                    (let caption_text =
                           (case lookup i c1 of None \<Rightarrow> None | Some figure1 \<Rightarrow> caption_text_of figure1);
                         c2 = move_after i (id_of img) c1
                     in case caption_text of
                          None \<Rightarrow> Inr (remove_id i c2)
                        | Some cap \<Rightarrow>
                            Inl (new_caption_paragraph
                                   (case lookup i c2 of None \<Rightarrow> None
                                    | Some figure2 \<Rightarrow> get_soup figure2))))))"

fun figures_loop :: "env \<Rightarrow> string \<Rightarrow> node \<Rightarrow> nat list \<Rightarrow> error + node" where
  "figures_loop E base_url container [] = Inr container"
| "figures_loop E base_url container (i # rest) =
     (case figure_step E base_url container i of
        Inl e \<Rightarrow> Inl e
      | Inr container' \<Rightarrow> figures_loop E base_url container' rest)"

definition normalize_figures :: "env \<Rightarrow> node \<Rightarrow> string \<Rightarrow> error + node" where
  "normalize_figures E container base_url =
     figures_loop E base_url container (ids_of (find_all [''figure''] container))"

section \<open>\<open>_collect_images\<close>\<close>

record image =
  url :: string
  alt :: "string option"
  caption :: "string option"

text \<open>
  \<open>img.find_next_sibling()\<close>: the next tag after the image among the children of its
  parent; strings in between are passed over.
\<close>

fun following :: "nat \<Rightarrow> node list \<Rightarrow> node list option" where
  "following i [] = None"
| "following i (c # cs) = (if has_id i c then Some cs else following i cs)"

fun siblings_after :: "nat \<Rightarrow> node \<Rightarrow> node list option" where
  "siblings_after i (Text s) = None"
| "siblings_after i (Other s) = None"
| "siblings_after i (Elem j nm a cs) =
     (case following i cs of
        Some r \<Rightarrow> Some r
      | None \<Rightarrow>
          (case find (\<lambda>r. r \<noteq> None) (map (siblings_after i) cs) of
             Some r \<Rightarrow> r
           | None \<Rightarrow> None))"

definition find_next_sibling :: "nat \<Rightarrow> node \<Rightarrow> node option" where
  "find_next_sibling i t =
     (case siblings_after i t of None \<Rightarrow> None | Some r \<Rightarrow> find is_elem r)"

text \<open>
  \<^verbatim>\<open>
  def _collect_images(container):
      images = []
      for img in container.find_all("img"):
          src = img.get("src")
          if not src:
              continue
          alt = img.get("alt")
          if alt is not None:
              alt = alt.strip() or None
          caption = None
          next_sibling = img.find_next_sibling()
          if next_sibling and next_sibling.name == "p":
              em = next_sibling.find("em")
              if em:
                  em_text = em.get_text(" ", strip=True)
                  p_text = next_sibling.get_text(" ", strip=True)
                  if em_text and em_text == p_text:
                      caption = em_text
          images.append({"url": src, "alt": alt, "caption": caption})
      return images
  \<close>
\<close>

definition caption_after :: "nat \<Rightarrow> node \<Rightarrow> string option" where
  "caption_after i container =
     (case find_next_sibling i container of
        None \<Rightarrow> None
      | Some next_sibling \<Rightarrow>
          if name_of next_sibling = ''p'' then
            (case find_tag ''em'' next_sibling of
               None \<Rightarrow> None
             | Some em \<Rightarrow>
                 (let em_text = get_text em; p_text = get_text next_sibling
                  in if em_text \<noteq> [] \<and> em_text = p_text then Some em_text else None))
          else None)"

fun collect_loop :: "node \<Rightarrow> node list \<Rightarrow> image list" where
  "collect_loop container [] = []"
| "collect_loop container (img # rest) =
     (case get_attr img ''src'' of
        None \<Rightarrow> collect_loop container rest
      | Some src \<Rightarrow>
          if src = [] then collect_loop container rest
          else \<lparr>url = src,
                alt = (case get_attr img ''alt'' of
                         None \<Rightarrow> None
                       | Some a \<Rightarrow> if strip a = [] then None else Some (strip a)),
                caption = caption_after (id_of img) container\<rparr>
               # collect_loop container rest)"

definition collect_images :: "node \<Rightarrow> image list" where
  "collect_images container = collect_loop container (find_all [''img''] container)"

section \<open>\<open>_html_to_markdown\<close>\<close>

text \<open>
  \<^verbatim>\<open>
  def _html_to_markdown(container):
      markdown = markdownify(str(container), heading_style="ATX", bullets="-")
      markdown = re.sub(r"\n{3,}", "\n\n", markdown)
      return markdown.strip()
  \<close>
\<close>

definition html_to_markdown :: "env \<Rightarrow> node \<Rightarrow> string" where
  "html_to_markdown E container = strip (collapse_newlines (markdownify E container))"

section \<open>The fallback image\<close>

text \<open>
  \<^verbatim>\<open>
  def _extract_meta_image(soup):
      keys = [("property", "og:image"), ("property", "og:image:secure_url"),
              ("name", "twitter:image"), ("name", "twitter:image:src"),
              ("itemprop", "image")]
      for attr, key in keys:
          tag = soup.find("meta", attrs={attr: key})
          if tag and tag.get("content"):
              return tag["content"].strip()
      return None
  \<close>
\<close>

definition meta_keys :: "(string \<times> string) list" where
  "meta_keys = [(''property'', ''og:image''), (''property'', ''og:image:secure_url''),
                (''name'', ''twitter:image''), (''name'', ''twitter:image:src''),
                (''itemprop'', ''image'')]"

fun meta_loop :: "node \<Rightarrow> (string \<times> string) list \<Rightarrow> string option" where
  "meta_loop soup [] = None"
| "meta_loop soup ((attr, key) # rest) =
     (case find (\<lambda>n. get_attr n attr = Some key) (find_all [''meta''] soup) of
        None \<Rightarrow> meta_loop soup rest
      | Some tag \<Rightarrow>
          (case get_attr tag ''content'' of
             None \<Rightarrow> meta_loop soup rest
           | Some c \<Rightarrow> if c = [] then meta_loop soup rest else Some (strip c)))"

definition extract_meta_image :: "node \<Rightarrow> string option" where
  "extract_meta_image soup = meta_loop soup meta_keys"

text \<open>
  \<^verbatim>\<open>
  def _extract_jsonld_image_value(payload):
      if isinstance(payload, dict):
          for key in ("image", "thumbnailUrl"):
              if key in payload:
                  value = payload[key]
                  if isinstance(value, str):
                      return value
                  if isinstance(value, list):
                      for item in value:
                          if isinstance(item, str):
                              return item
                          if isinstance(item, dict) and "url" in item:
                              url = item.get("url")
                              if isinstance(url, str):
                                  return url
                  if isinstance(value, dict) and "url" in value:
                      url = value.get("url")
                      if isinstance(url, str):
                          return url
          for nested in payload.values():
              url = _extract_jsonld_image_value(nested)
              if url:
                  return url
      elif isinstance(payload, list):
          for item in payload:
              url = _extract_jsonld_image_value(item)
              if url:
                  return url
      return None
  \<close>
  An object of JSON is a list of members with one member for each key. The first two
  functions are the returns inside the loop over the two keys: \<open>Some s\<close> is
  \<open>return s\<close> (the string may be empty), \<open>None\<close> is no return.
\<close>

definition url_member :: "json \<Rightarrow> string option" where
  "url_member v =
     (case v of
        JObject kvs \<Rightarrow> (case map_of kvs ''url'' of Some (JString u) \<Rightarrow> Some u | _ \<Rightarrow> None)
      | _ \<Rightarrow> None)"

fun image_items :: "json list \<Rightarrow> string option" where
  "image_items [] = None"
| "image_items (item # rest) =
     (case item of
        JString s \<Rightarrow> Some s
      | _ \<Rightarrow> (case url_member item of Some u \<Rightarrow> Some u | None \<Rightarrow> image_items rest))"

fun image_keys :: "(string \<times> json) list \<Rightarrow> string list \<Rightarrow> string option" where
  "image_keys kvs [] = None"
| "image_keys kvs (key # rest) =
     (case map_of kvs key of
        None \<Rightarrow> image_keys kvs rest
      | Some (JString s) \<Rightarrow> Some s
      | Some (JArray items) \<Rightarrow>
          (case image_items items of Some u \<Rightarrow> Some u | None \<Rightarrow> image_keys kvs rest)
      | Some v \<Rightarrow> (case url_member v of Some u \<Rightarrow> Some u | None \<Rightarrow> image_keys kvs rest))"

fun extract_jsonld_image_value :: "json \<Rightarrow> string option" where
  "extract_jsonld_image_value (JObject kvs) =
     (case image_keys kvs [''image'', ''thumbnailUrl''] of
        Some u \<Rightarrow> Some u
      | None \<Rightarrow> first_truthy (map (\<lambda>kv. extract_jsonld_image_value (snd kv)) kvs))"
| "extract_jsonld_image_value (JArray items) =
     first_truthy (map extract_jsonld_image_value items)"
| "extract_jsonld_image_value (JString s) = None"
| "extract_jsonld_image_value JOther = None"

text \<open>
  \<^verbatim>\<open>
  def _extract_jsonld_image(soup):
      for script in soup.find_all("script", attrs={"type": "application/ld+json"}):
          if not script.string:
              continue
          try:
              payload = json.loads(script.string)
          except json.JSONDecodeError:
              continue
          url = _extract_jsonld_image_value(payload)
          if url:
              return url
      return None
  \<close>
\<close>

fun jsonld_loop :: "env \<Rightarrow> node list \<Rightarrow> string option" where
  "jsonld_loop E [] = None"
| "jsonld_loop E (script # rest) =
     (case node_string script of
        None \<Rightarrow> jsonld_loop E rest
      | Some s \<Rightarrow>
          if s = [] then jsonld_loop E rest
          else (case json_loads E s of
                  None \<Rightarrow> jsonld_loop E rest
                | Some payload \<Rightarrow>
                    (let u = extract_jsonld_image_value payload
                     in if truthy u then u else jsonld_loop E rest)))"

definition extract_jsonld_image :: "env \<Rightarrow> node \<Rightarrow> string option" where
  "extract_jsonld_image E soup =
     jsonld_loop E (filter (\<lambda>n. get_attr n ''type'' = Some ''application/ld+json'')
                      (find_all [''script''] soup))"

text \<open>
  \<^verbatim>\<open>
  def _extract_image_link(soup):
      for anchor in soup.find_all("a"):
          text = anchor.get_text(" ", strip=True)
          if not text:
              continue
          if text.startswith("Image:"):
              href = anchor.get("href")
              if href:
                  alt = text.split("Image:", 1)[1].strip() or None
                  return href, alt
      return None, None
  \<close>
\<close>

fun image_link_loop :: "node list \<Rightarrow> string option \<times> string option" where
  "image_link_loop [] = (None, None)"
| "image_link_loop (anchor # rest) =
     (let text = get_text anchor
      in if text = [] then image_link_loop rest
         else if startswith text ''Image:'' \<and> truthy (get_attr anchor ''href'')
         then (get_attr anchor ''href'',
               (let a = strip (drop (length ''Image:'') text) in if a = [] then None else Some a))
         else image_link_loop rest)"

definition extract_image_link :: "node \<Rightarrow> string option \<times> string option" where
  "extract_image_link soup = image_link_loop (find_all [''a''] soup)"

text \<open>
  \<^verbatim>\<open>
  CMS_IMAGE_RE = re.compile(r"https?://cms-imgp\.jw-cdn\.org/img/p/[^\s\"'<>]+", re.IGNORECASE)
  AKAMAI_IMAGE_RE = re.compile(
      r"https?://assetsnffrgf-a\.akamaihd\.net/assets/[^\s\"'<>]+", re.IGNORECASE)
  \<close>
  \<open>cdn_match_at\<close> is one attempt of such a pattern at the start of a string, its value
  the length of the match: the scheme with or without \<open>s\<close>, the host and path in any
  letter case, and then as many characters as there are that are neither whitespace nor
  a quote nor an angle bracket, at least one. \<open>findall_cdn\<close> is \<open>findall\<close>: the matches
  from the left that do not overlap.
\<close>

definition url_char :: "char \<Rightarrow> bool" where
  "url_char c = (\<not> is_space c \<and> c \<noteq> CHR 0x22 \<and> c \<noteq> CHR 0x27 \<and> c \<noteq> CHR ''<'' \<and> c \<noteq> CHR ''>'')"

definition literal_then_url :: "string \<Rightarrow> string \<Rightarrow> nat option" where
  "literal_then_url lit s =
     (if lower (take (length lit) s) = lit \<and> takeWhile url_char (drop (length lit) s) \<noteq> []
      then Some (length lit + length (takeWhile url_char (drop (length lit) s)))
      else None)"

definition cdn_match_at :: "string \<Rightarrow> string \<Rightarrow> nat option" where
  "cdn_match_at host_path s =
     (case literal_then_url (''https://'' @ host_path) s of
        Some n \<Rightarrow> Some n
      | None \<Rightarrow> literal_then_url (''http://'' @ host_path) s)"

function findall_cdn :: "string \<Rightarrow> string \<Rightarrow> string list" where
  "findall_cdn host_path s =
     (if s = [] then []
      else (case cdn_match_at host_path s of
              Some n \<Rightarrow> if n = 0 then findall_cdn host_path (tl s)
                        else take n s # findall_cdn host_path (drop n s)
            | None \<Rightarrow> findall_cdn host_path (tl s)))"
  by pat_completeness auto
termination
  by (relation "measure (\<lambda>(h, s). length s)") (auto simp: less_Suc_eq_le intro: diff_less)

declare findall_cdn.simps [simp del]

definition CMS_IMAGE_RE_findall :: "string \<Rightarrow> string list" where
  "CMS_IMAGE_RE_findall html = findall_cdn ''cms-imgp.jw-cdn.org/img/p/'' html"

definition AKAMAI_IMAGE_RE_findall :: "string \<Rightarrow> string list" where
  "AKAMAI_IMAGE_RE_findall html = findall_cdn ''assetsnffrgf-a.akamaihd.net/assets/'' html"

text \<open>
  \<^verbatim>\<open>
  def _extract_fallback_image(html, soup, base_url):
      meta_image = _extract_meta_image(soup)
      if meta_image:
          return {"url": urljoin(base_url, meta_image), "alt": None, "caption": None}

      jsonld_image = _extract_jsonld_image(soup)
      if jsonld_image:
          return {"url": urljoin(base_url, jsonld_image), "alt": None, "caption": None}

      link_url, link_alt = _extract_image_link(soup)
      if link_url:
          return {"url": urljoin(base_url, link_url), "alt": link_alt, "caption": None}

      cms_urls = CMS_IMAGE_RE.findall(html)
      if cms_urls:
          best = _pick_best_image_url(cms_urls)
          if best:
              return {"url": best, "alt": None, "caption": None}

      akamai_urls = AKAMAI_IMAGE_RE.findall(html)
      if akamai_urls:
          best = _pick_best_image_url(akamai_urls)
          if best:
              return {"url": best, "alt": None, "caption": None}

      return None
  \<close>
\<close>

definition joined_image :: "env \<Rightarrow> string \<Rightarrow> string \<Rightarrow> string option \<Rightarrow> error + image option" where
  "joined_image E base_url u a =
     (case urljoin E base_url u of
        Inl e \<Rightarrow> Inl e
      | Inr r \<Rightarrow> Inr (Some \<lparr>url = r, alt = a, caption = None\<rparr>))"

definition cdn_image :: "string list \<Rightarrow> image option" where
  "cdn_image urls =
     (if urls = [] then None
      else (case pick_best_image_url urls of
              None \<Rightarrow> None
            | Some best \<Rightarrow> if best = [] then None
                           else Some \<lparr>url = best, alt = None, caption = None\<rparr>))"

definition fallback_from_cdn :: "string \<Rightarrow> image option" where
  "fallback_from_cdn html =
     (case cdn_image (CMS_IMAGE_RE_findall html) of
        Some im \<Rightarrow> Some im
      | None \<Rightarrow> cdn_image (AKAMAI_IMAGE_RE_findall html))"

definition fallback_from_link :: "env \<Rightarrow> string \<Rightarrow> node \<Rightarrow> string \<Rightarrow> error + image option" where
  "fallback_from_link E html soup base_url =
     (case extract_image_link soup of
        (Some link_url, link_alt) \<Rightarrow>
          if link_url \<noteq> [] then joined_image E base_url link_url link_alt
          else Inr (fallback_from_cdn html)
      | (None, link_alt) \<Rightarrow> Inr (fallback_from_cdn html))"

definition fallback_from_jsonld :: "env \<Rightarrow> string \<Rightarrow> node \<Rightarrow> string \<Rightarrow> error + image option" where
  "fallback_from_jsonld E html soup base_url =
     (case extract_jsonld_image E soup of
        Some jsonld_image \<Rightarrow>
          if jsonld_image \<noteq> [] then joined_image E base_url jsonld_image None
          else fallback_from_link E html soup base_url
      | None \<Rightarrow> fallback_from_link E html soup base_url)"

definition extract_fallback_image :: "env \<Rightarrow> string \<Rightarrow> node \<Rightarrow> string \<Rightarrow> error + image option" where
  "extract_fallback_image E html soup base_url =
     (case extract_meta_image soup of
        Some meta_image \<Rightarrow>
          if meta_image \<noteq> [] then joined_image E base_url meta_image None
          else fallback_from_jsonld E html soup base_url
      | None \<Rightarrow> fallback_from_jsonld E html soup base_url)"

text \<open>
  \<^verbatim>\<open>
  def _insert_fallback_image(markdown, image):
      alt = image.get("alt") or ""
      url = image["url"]
      image_md = f"![{alt}]({url})"
      if not markdown.strip():
          return image_md

      lines = markdown.splitlines()
      for idx, line in enumerate(lines):
          if line.strip():
              if line.startswith("# "):
                  head = "\n".join(lines[: idx + 1])
                  tail = "\n".join(lines[idx + 1 :]).strip()
                  if tail:
                      return f"{head}\n\n{image_md}\n\n{tail}"
                  return f"{head}\n\n{image_md}"
              return f"{image_md}\n\n{markdown}"
      return f"{image_md}\n\n{markdown}"
  \<close>
\<close>

fun insert_loop :: "string \<Rightarrow> string \<Rightarrow> string list \<Rightarrow> (nat \<times> string) list \<Rightarrow> string" where
  "insert_loop image_md markdown lines [] = image_md @ [LF, LF] @ markdown"
| "insert_loop image_md markdown lines ((idx, line) # rest) =
     (if strip line \<noteq> [] then
        (if startswith line ''# '' then
           (let head = join [LF] (take (idx + 1) lines);
                tail = strip (join [LF] (drop (idx + 1) lines))
            in if tail \<noteq> [] then head @ [LF, LF] @ image_md @ [LF, LF] @ tail
               else head @ [LF, LF] @ image_md)
         else image_md @ [LF, LF] @ markdown)
      else insert_loop image_md markdown lines rest)"

definition insert_fallback_image :: "string \<Rightarrow> image \<Rightarrow> string" where
  "insert_fallback_image markdown im =
     (let image_md = ''!['' @ (case alt im of None \<Rightarrow> [] | Some a \<Rightarrow> a) @ '']('' @ url im @ '')''
      in if strip markdown = [] then image_md
         else (let lines = splitlines markdown
               in insert_loop image_md markdown lines (enumerate 0 lines)))"

section \<open>\<open>extract_from_html\<close>\<close>

text \<open>
  \<^verbatim>\<open>
  def _readability_fallback(html):
      document = Document(html)
      summary_html = document.summary(html_partial=True)
      summary_soup = BeautifulSoup(summary_html, "lxml")
      container = summary_soup.body or summary_soup
      return container, document.title()
  \<close>
\<close>

definition readability_fallback :: "env \<Rightarrow> string \<Rightarrow> error + (node \<times> string)" where
  "readability_fallback E html =
     (case readability E html of
        Inl e \<Rightarrow> Inl e
      | Inr (summary_html, document_title) \<Rightarrow>
          (let summary_soup = parse_html E summary_html
           in Inr (case find_tag ''body'' summary_soup of
                     Some body \<Rightarrow> body
                   | None \<Rightarrow> summary_soup,
                   document_title)))"

text \<open>
  \<^verbatim>\<open>
  def extract_from_html(html, base_url):
      soup = BeautifulSoup(html, "lxml")
      fallback_image = _extract_fallback_image(html, soup, base_url)
      _remove_unwanted_tags(soup)

      container = _select_container(soup)
      fallback_title = None
      if container is None:
          container, fallback_title = _readability_fallback(html)

      title = _extract_title(container, soup, fallback_title)
      title_node = _find_title_node(container, title)

      _strip_player_controls(container)
      _strip_metadata_blocks(container, title, title_node)

      _normalize_links(container, base_url)
      _normalize_figures(container, base_url)
      _normalize_images(container, base_url)

      images = _collect_images(container)
      markdown = _html_to_markdown(container)
      markdown = _ensure_markdown_title(markdown, title)
      if not images and fallback_image:
          if not fallback_image.get("alt"):
              fallback_image["alt"] = title
          images = [fallback_image]
          markdown = _insert_fallback_image(markdown, fallback_image)

      return {"markdown": markdown, "title": title, "source_url": base_url, "images": images}
  \<close>
  The model has the function in two parts. \<open>cleaned_container\<close> is the function up to
  \<open>_normalize_images\<close>: it gives the container after all changes, the title and the
  fallback image. After the container is chosen, the program reads and changes only
  what is below the container, so the model carries the container on its own.
  \<open>choose_container\<close> is the choice of the container with its fallback.
\<close>

definition choose_container :: "env \<Rightarrow> string \<Rightarrow> node \<Rightarrow> error + (node \<times> string option)" where
  "choose_container E html soup =
     (case select_container soup of
        Some container \<Rightarrow> Inr (container, None)
      | None \<Rightarrow>
          (case readability_fallback E html of
             Inl e \<Rightarrow> Inl e
           | Inr (container, fallback_title) \<Rightarrow> Inr (container, Some fallback_title)))"

definition normalize_media :: "env \<Rightarrow> node \<Rightarrow> string \<Rightarrow> error + node" where
  "normalize_media E container base_url =
     (case normalize_links E container base_url of
        Inl e \<Rightarrow> Inl e
      | Inr c1 \<Rightarrow>
          (case normalize_figures E c1 base_url of
             Inl e \<Rightarrow> Inl e
           | Inr c2 \<Rightarrow> normalize_images E c2 base_url))"

definition cleaned_container ::
    "env \<Rightarrow> string \<Rightarrow> string \<Rightarrow> error + (node \<times> string option \<times> image option)" where
  "cleaned_container E html base_url =
     (let soup = parse_html E html
      in case extract_fallback_image E html soup base_url of
           Inl e \<Rightarrow> Inl e
         | Inr fallback_image \<Rightarrow>
             (let soup1 = remove_unwanted_tags soup
              in case choose_container E html soup1 of
                   Inl e \<Rightarrow> Inl e
                 | Inr (container, fallback_title) \<Rightarrow>
                     (let ttl = extract_title container soup1 fallback_title;
                          title_node = find_title_node container ttl
                      in case strip_player_controls container of
                           Inl e \<Rightarrow> Inl e
                         | Inr c1 \<Rightarrow>
                             (case normalize_media E (strip_metadata_blocks c1 ttl title_node) base_url of
                                Inl e \<Rightarrow> Inl e
                              | Inr c2 \<Rightarrow> Inr (c2, ttl, fallback_image)))))"

record extraction_result =
  markdown :: string
  title :: "string option"
  source_url :: string
  images :: "image list"

definition extract_from_html :: "env \<Rightarrow> string \<Rightarrow> string \<Rightarrow> error + extraction_result" where
  "extract_from_html E html base_url =
     (case cleaned_container E html base_url of
        Inl e \<Rightarrow> Inl e
      | Inr (container, ttl, fallback_image) \<Rightarrow>
          (let imgs = collect_images container;
               md = ensure_markdown_title (html_to_markdown E container) ttl
           in case fallback_image of
                None \<Rightarrow> Inr \<lparr>markdown = md, title = ttl, source_url = base_url, images = imgs\<rparr>
              | Some fb \<Rightarrow>
                  if imgs = [] then
                    (let fb' = (if truthy (alt fb) then fb else fb\<lparr>alt := ttl\<rparr>)
                     in Inr \<lparr>markdown = insert_fallback_image md fb', title = ttl,
                             source_url = base_url, images = [fb']\<rparr>)
                  else Inr \<lparr>markdown = md, title = ttl, source_url = base_url, images = imgs\<rparr>))"

section \<open>Notions used in the statements and proofs\<close>

text \<open>
  \<open>covers b t c\<close>: in the tree \<open>c\<close>, whatever contains the tag \<open>b\<close> contains the tag \<open>t\<close>.
\<close>

definition covers :: "nat \<Rightarrow> nat \<Rightarrow> node \<Rightarrow> bool" where
  "covers b t c \<longleftrightarrow> (\<forall>n \<in> set (c # descendants c). b \<in> set (ids n) \<longrightarrow> t \<in> set (ids n))"



section \<open>Values for the examples\<close>

text \<open>
  The examples need values of the library functions. \<open>example_urljoin\<close> is \<open>urljoin\<close> on
  the two kinds of reference that the examples use, an absolute \<open>http\<close> or \<open>https\<close> URL
  (the result is the reference) and a path that starts with a slash (the result is
  scheme and host of the base, then the path); on other references it is left open,
  here as an error. \<open>example_env\<close> takes the parsed document and the text that
  \<open>markdownify\<close> gives for the cleaned container; the examples call neither \<open>json.loads\<close>
  nor \<open>float\<close> nor the readability package.
\<close>

definition url_origin :: "string \<Rightarrow> string" where
  "url_origin b =
     (let sch = takeWhile (\<lambda>c. c \<noteq> CHR '':'') b
      in sch @ ''://'' @ takeWhile (\<lambda>c. c \<noteq> CHR ''/'') (drop (length sch + 3) b))"

definition example_urljoin :: "string \<Rightarrow> string \<Rightarrow> error + string" where
  "example_urljoin b r =
     (if startswith (lower r) ''http://'' \<or> startswith (lower r) ''https://'' then Inr r
      else if startswith r ''/'' then Inr (url_origin b @ r)
      else Inl ValueError)"

definition example_env :: "node \<Rightarrow> string \<Rightarrow> env" where
  "example_env soup md =
     \<lparr>parse_html = (\<lambda>html. soup), urljoin = example_urljoin, json_loads = (\<lambda>s. None),
      float_of = (\<lambda>s. None), readability = (\<lambda>html. Inl ValueError),
      markdownify = (\<lambda>container. md)\<rparr>"

text \<open>
  The document of the repository's test \<open>test_extract_preserves_order_and_captions\<close>,
  as the parser gives it (the strings of whitespace between the tags are left out, they
  change nothing here): a heading, a paragraph, a figure with an image and a caption,
  a paragraph, an image.
\<close>

definition caption_main :: node where
  "caption_main =
     Elem 5 ''main'' []
       [Elem 6 ''h1'' [] [Text ''Headline''],
        Elem 7 ''p'' [] [Text ''First paragraph.''],
        Elem 8 ''figure'' []
          [Elem 9 ''img'' [(''src'', ''/images/cover.jpg''), (''alt'', ''Cover'')] [],
           Elem 10 ''figcaption'' [] [Text ''Cover caption'']],
        Elem 11 ''p'' [] [Text ''Second paragraph.''],
        Elem 12 ''img'' [(''data-src'', ''/images/inline.jpg''), (''alt'', ''Inline'')] []]"

definition caption_soup :: node where
  "caption_soup =
     Elem 0 ''[document]'' []
       [Elem 1 ''html'' []
          [Elem 2 ''head'' [] [Elem 3 ''title'' [] [Text ''Sample Title'']],
           Elem 4 ''body'' [] [caption_main]]]"

text \<open>
  The container of the repository's test \<open>test_article_header_image_kept\<close>: a figure
  with an image and no caption.
\<close>

definition hero_article :: node where
  "hero_article =
     Elem 1 ''article'' []
       [Elem 2 ''header'' []
          [Elem 3 ''figure'' [] [Elem 4 ''img'' [(''src'', ''/images/hero.jpg''), (''alt'', ''Hero'')] []]],
        Elem 5 ''p'' [] [Text ''Body content.'']]"



text \<open>
  A document without an image in its container and with an image URL of the CDN in
  the text next to it (the repository's test \<open>test_fallback_image_from_cms_url\<close>).
\<close>

definition cms_html :: string where
  "cms_html = ''<main><p>Body.</p></main> https://cms-imgp.jw-cdn.org/img/p/1_xl.jpg ''"

definition cms_soup :: node where
  "cms_soup =
     Elem 0 ''[document]'' []
       [Elem 1 ''html'' []
          [Elem 2 ''head'' [] [Elem 3 ''title'' [] [Text ''Sample Title'']],
           Elem 4 ''body'' []
             [Elem 5 ''main'' [] [Elem 6 ''p'' [] [Text ''Body.'']],
              Text '' https://cms-imgp.jw-cdn.org/img/p/1_xl.jpg '']]]"

text \<open>
  A container for the metadata stripper: the heading that gives the title reads like a
  publication name and sits in a block whose class is a metadata keyword; a second block
  with such a class follows.
\<close>

definition metadata_main :: node where
  "metadata_main =
     Elem 1 ''main'' []
       [Elem 2 ''div'' [(''class'', ''publication'')]
          [Elem 3 ''h2'' [] [Text ''THE WATCHTOWER''], Text ''Study edition''],
        Elem 4 ''p'' [(''class'', ''share'')] [Text ''Share''],
        Elem 5 ''p'' [] [Text ''Body text.'']]"

text \<open>A document with two candidate blocks for the container, one long enough.\<close>

definition divs_soup :: node where
  "divs_soup =
     Elem 0 ''[document]'' []
       [Elem 1 ''div'' [(''id'', ''sidebar-content'')] [Text ''Short.''],
        Elem 2 ''div'' [(''class'', ''main-BODY'')] [Text (replicate 200 CHR ''x'')],
        Elem 3 ''div'' [(''class'', ''wrapper'')] [Text (replicate 300 CHR ''y'')]]"

section \<open>Properties of the string functions\<close>

subsection \<open>Lines, joining and stripping\<close>

lemma title_loop_enum:
  "title_loop md t lines (enumerate n ls) =
     (case find (\<lambda>l. strip l \<noteq> []) ls of
        None \<Rightarrow> md
      | Some l \<Rightarrow>
          if strip l = ''# '' @ t then md
          else if strip l = t
               then join [LF] (lines[n + length (takeWhile (\<lambda>l. strip l = []) ls) := ''# '' @ t])
               else md)"
  by (induction ls arbitrary: n) (auto simp: Let_def split: option.splits)

lemma splitlines_no_break:
  "l \<in> set (splitlines s) \<Longrightarrow> \<forall>c \<in> set l. \<not> is_linebreak c"
proof (induction s arbitrary: l rule: splitlines.induct)
  case (1 s)
  show ?case
  proof (cases "s = []")
    case True
    with "1.prems" show ?thesis by (simp add: splitlines.simps)
  next
    case False
    let ?line = "takeWhile (\<lambda>c. \<not> is_linebreak c) s"
    let ?rest = "dropWhile (\<lambda>c. \<not> is_linebreak c) s"
    have line: "\<forall>c \<in> set ?line. \<not> is_linebreak c"
      by (auto dest: set_takeWhileD)
    show ?thesis
    proof (cases ?rest)
      case Nil
      with False "1.prems" line show ?thesis
        by (simp add: splitlines.simps [of s])
    next
      case (Cons c r)
      note rest = Cons
      show ?thesis
      proof (cases r)
        case Nil
        with False "1.prems" line rest show ?thesis
          by (simp add: splitlines.simps [of s])
      next
        case (Cons d r')
        show ?thesis
        proof (cases "c = CR \<and> d = LF")
          case True
          with False "1.prems" rest Cons have "l = ?line \<or> l \<in> set (splitlines r')"
            by (simp add: splitlines.simps [of s])
          with line "1.IH"(1) [OF False refl refl rest Cons True] show ?thesis by blast
        next
          case F2: False
          with False "1.prems" rest Cons have "l = ?line \<or> l \<in> set (splitlines r)"
            by (auto simp add: splitlines.simps [of s])
          with line "1.IH"(2) [OF False refl refl rest Cons F2] show ?thesis by blast
        qed
      qed
    qed
  qed
qed

lemma splitlines_line_LF:
  assumes "\<forall>c \<in> set x. \<not> is_linebreak c"
  shows "splitlines (x @ LF # rest) = x # splitlines rest"
proof -
  have lb: "is_linebreak LF" by (simp add: is_linebreak_def)
  have tw: "takeWhile (\<lambda>c. \<not> is_linebreak c) (x @ LF # rest) = x"
    using assms lb by (simp add: takeWhile_append2)
  have dw: "dropWhile (\<lambda>c. \<not> is_linebreak c) (x @ LF # rest) = LF # rest"
    using assms lb by (simp add: dropWhile_append2)
  show ?thesis
    by (subst splitlines.simps) (simp add: tw dw Let_def splitlines.simps [of "[]"] split: list.splits)
qed

lemma splitlines_single:
  assumes "\<forall>c \<in> set x. \<not> is_linebreak c"
  shows "splitlines x = (if x = [] then [] else [x])"
proof -
  have tw: "takeWhile (\<lambda>c. \<not> is_linebreak c) x = x"
    using assms by (simp add: takeWhile_eq_all_conv)
  have dw: "dropWhile (\<lambda>c. \<not> is_linebreak c) x = []"
    using assms by simp
  show ?thesis
    by (subst splitlines.simps) (simp add: tw dw Let_def)
qed

lemma strip_Nil [simp]: "strip [] = []"
  by (simp add: strip_def lstrip_def rstrip_def)

lemma find_splitlines_join:
  assumes "\<forall>x \<in> set xs. \<forall>c \<in> set x. \<not> is_linebreak c"
  shows "find (\<lambda>l. strip l \<noteq> []) (splitlines (join [LF] xs)) = find (\<lambda>l. strip l \<noteq> []) xs"
  using assms
proof (induction "[LF]" xs rule: join.induct)
  case 1
  then show ?case by (simp add: splitlines.simps [of "[]"])
next
  case (2 x)
  then show ?case by (simp add: splitlines_single)
next
  case (3 x y ys)
  then show ?case by (simp add: splitlines_line_LF)
qed

lemma strip_fixed:
  assumes "s \<noteq> []" "\<not> is_space (hd s)" "\<not> is_space (last s)"
  shows "strip s = s"
proof -
  from assms obtain c cs where s: "s = c # cs" by (cases s) auto
  have "rev s \<noteq> []" "\<not> is_space (hd (rev s))"
    using assms by (simp_all add: hd_rev)
  then have "dropWhile is_space (rev s) = rev s"
    by (cases "rev s") auto
  then have "rstrip s = s"
    by (simp add: rstrip_def)
  with assms s show ?thesis by (simp add: strip_def lstrip_def)
qed

lemma last_dropWhile_keep:
  "dropWhile P xs \<noteq> [] \<Longrightarrow> last (dropWhile P xs) = last xs"
  by (induction xs) (auto split: if_splits)

lemma strip_ends:
  assumes "strip s \<noteq> []"
  shows "\<not> is_space (hd (strip s))" "\<not> is_space (last (strip s))"
proof -
  show "\<not> is_space (hd (strip s))"
    using assms hd_dropWhile [of is_space "rstrip s"] by (simp add: strip_def lstrip_def)
  have r: "rstrip s \<noteq> []" using assms by (auto simp: strip_def lstrip_def)
  then have "dropWhile is_space (rev s) \<noteq> []" by (simp add: rstrip_def)
  then have "\<not> is_space (hd (dropWhile is_space (rev s)))" by (rule hd_dropWhile)
  then have l: "\<not> is_space (last (rstrip s))"
    using r by (simp add: rstrip_def last_rev)
  have "last (dropWhile is_space (rstrip s)) = last (rstrip s)"
    using assms by (simp add: strip_def lstrip_def last_dropWhile_keep)
  with l show "\<not> is_space (last (strip s))" by (simp add: strip_def lstrip_def)
qed

lemma strip_subset: "set (strip s) \<subseteq> set s"
proof
  fix x assume "x \<in> set (strip s)"
  then have "x \<in> set (rstrip s)"
    by (auto simp: strip_def lstrip_def dest: set_dropWhileD)
  then have "x \<in> set (rev s)"
    by (auto simp: rstrip_def dest: set_dropWhileD)
  then show "x \<in> set s" by simp
qed

lemma find_update:
  assumes "P h" "i = length (takeWhile (\<lambda>l. \<not> P l) ls)" "i < length ls"
  shows "find P (ls[i := h]) = Some h"
  using assms
  by (induction ls arbitrary: i) (auto split: if_splits)

lemma find_Some_takeWhile_less:
  "find P xs = Some x \<Longrightarrow> length (takeWhile (\<lambda>l. \<not> P l) xs) < length xs"
  by (induction xs) (auto split: if_splits)

subsection \<open>The title heading\<close>

lemma ensure_closed_form:
  "ensure_markdown_title md ttl =
    (case ttl of
       None \<Rightarrow> md
     | Some t \<Rightarrow>
         if t = [] then md
         else (case find (\<lambda>l. strip l \<noteq> []) (splitlines md) of
                 None \<Rightarrow> md
               | Some l \<Rightarrow>
                   if strip l = t
                   then join [LF] ((splitlines md)
                          [length (takeWhile (\<lambda>l. strip l = []) (splitlines md)) := ''# '' @ t])
                   else md))"
  by (auto simp: ensure_markdown_title_def title_loop_enum Let_def split: option.splits)

lemma ensure_idem_aux:
  assumes t: "t \<noteq> []"
  shows "ensure_markdown_title (ensure_markdown_title md (Some t)) (Some t) = ensure_markdown_title md (Some t)"
proof (cases "find (\<lambda>l. strip l \<noteq> []) (splitlines md)")
  case None
  with t show ?thesis by (simp add: ensure_closed_form)
next
  case (Some l)
  show ?thesis
  proof (cases "strip l = t")
    case False
    with t Some show ?thesis by (simp add: ensure_closed_form)
  next
    case True
    let ?ls = "splitlines md"
    let ?i = "length (takeWhile (\<lambda>l. strip l = []) ?ls)"
    let ?h = "''# '' @ t"
    let ?r = "join [LF] (?ls[?i := ?h])"
    have r: "ensure_markdown_title md (Some t) = ?r"
      using t Some True by (simp add: ensure_closed_form)
    from Some have lmem: "l \<in> set ?ls" and lne: "strip l \<noteq> []"
      by (auto simp: find_Some_iff)
    from Some have i: "?i < length ?ls"
      using find_Some_takeWhile_less [of "\<lambda>l. strip l \<noteq> []" ?ls l] by simp
    have tends: "\<not> is_space (last t)"
      using strip_ends(2) [of l] lne True by simp
    have hstrip: "strip ?h = ?h"
      by (rule strip_fixed) (use t tends in \<open>simp_all add: is_space_def\<close>)
    have tnb: "\<forall>c \<in> set t. \<not> is_linebreak c"
      using splitlines_no_break [OF lmem] strip_subset [of l] True by auto
    have hnb: "\<forall>c \<in> set ?h. \<not> is_linebreak c"
      using tnb by (auto simp: is_linebreak_def)
    have allnb: "\<forall>x \<in> set (?ls[?i := ?h]). \<forall>c \<in> set x. \<not> is_linebreak c"
    proof
      fix x assume "x \<in> set (?ls[?i := ?h])"
      then have "x = ?h \<or> x \<in> set ?ls"
        using set_update_subset_insert [of ?ls ?i ?h] by auto
      then show "\<forall>c \<in> set x. \<not> is_linebreak c"
        using hnb splitlines_no_break by blast
    qed
    have "find (\<lambda>l. strip l \<noteq> []) (?ls[?i := ?h]) = Some ?h"
      by (rule find_update) (use hstrip i in simp_all)
    then have f: "find (\<lambda>l. strip l \<noteq> []) (splitlines ?r) = Some ?h"
      using find_splitlines_join [OF allnb] by simp
    have "ensure_markdown_title ?r (Some t) = ?r"
      using t f hstrip by (simp add: ensure_closed_form)
    with r show ?thesis by simp
  qed
qed

text \<open>
  Claim C7, as amended. With a title that is not empty, \<open>_ensure_markdown_title\<close> looks
  at the first line of the markdown whose \<open>strip()\<close> is not empty, and compares the
  stripped line with the title. When they are equal, that line (with the whitespace
  around it) is replaced by \<open># \<close> followed by the title, and the lines are joined again
  by single newlines. In every other case (no title, an empty title, no such line, a
  line that is stripped to anything else, the heading itself included) the markdown is
  returned as it is.
\<close>

theorem ensure_markdown_title_first_line:
  "ensure_markdown_title md ttl =
    (case ttl of
       None \<Rightarrow> md
     | Some t \<Rightarrow>
         if t = [] then md
         else (case find (\<lambda>l. strip l \<noteq> []) (splitlines md) of
                 None \<Rightarrow> md
               | Some l \<Rightarrow>
                   if strip l = t
                   then join [LF] ((splitlines md)
                          [length (takeWhile (\<lambda>l. strip l = []) (splitlines md)) := ''# '' @ t])
                   else md))"
  by (rule ensure_closed_form)

text \<open>
  The theorem at the markdown of a page whose first paragraph is the title: the first
  line becomes the heading, the second line stays.
\<close>

theorem ensure_markdown_title_first_line_witness:
  "ensure_markdown_title (''Title'' @ [LF] @ ''Body'') (Some ''Title'') = ''# Title'' @ [LF] @ ''Body''"
proof -
  have "splitlines (''Title'' @ [LF] @ ''Body'') = [''Title'', ''Body'']" by code_simp
  moreover have "strip ''Title'' = ''Title''" by code_simp
  ultimately show ?thesis
    using ensure_markdown_title_first_line [of "''Title'' @ [LF] @ ''Body''" "Some ''Title''"]
    by simp
qed

text \<open>
  Claim C7 as stated fails where the first non-blank line is the title followed by
  whitespace (markdown's hard line break is two spaces at the end of a line): the line
  is not equal to the title, and the markdown is changed all the same.
\<close>

theorem ensure_markdown_title_trimmed_counterexample:
  "find (\<lambda>l. strip l \<noteq> []) (splitlines (''Title  '' @ [LF] @ ''Body'')) = Some ''Title  ''
   \<and> ''Title  '' \<noteq> ''Title''
   \<and> ensure_markdown_title (''Title  '' @ [LF] @ ''Body'') (Some ''Title'')
       = ''# Title'' @ [LF] @ ''Body''
   \<and> ensure_markdown_title (''Title  '' @ [LF] @ ''Body'') (Some ''Title'')
       \<noteq> ''Title  '' @ [LF] @ ''Body''"
  by code_simp

text \<open>
  Claim C10. Applying \<open>_ensure_markdown_title\<close> twice gives what applying it once gives,
  for every markdown and every title (none and the empty title included).
\<close>

theorem ensure_markdown_title_idempotent:
  "ensure_markdown_title (ensure_markdown_title md ttl) ttl = ensure_markdown_title md ttl"
proof (cases ttl)
  case None
  then show ?thesis by (simp add: ensure_markdown_title_def)
next
  case (Some t)
  then show ?thesis
    by (cases "t = []") (simp_all add: ensure_idem_aux, simp add: ensure_markdown_title_def)
qed

subsection \<open>Runs of newlines\<close>

lemma take3_append:
  assumes "xs \<noteq> []" "last xs \<noteq> LF"
  shows "take 3 (xs @ rest) = [LF, LF, LF] \<longleftrightarrow> take 3 xs = [LF, LF, LF]"
proof (cases "3 \<le> length xs")
  case True
  then show ?thesis by simp
next
  case False
  then have tx: "take 3 xs = xs" by simp
  have "take 3 (xs @ rest) = xs @ take (3 - length xs) rest"
    using False by simp
  then have m: "last xs \<in> set (take 3 (xs @ rest))"
    using assms by simp
  have l: "take 3 (xs @ rest) \<noteq> [LF, LF, LF]"
  proof
    assume "take 3 (xs @ rest) = [LF, LF, LF]"
    then have "set (take 3 (xs @ rest)) = {LF}" by (simp only: list.set) simp
    with m assms show False by (simp only: singleton_iff)
  qed
  have "last xs \<in> set xs" using assms by simp
  then have "xs \<noteq> [LF, LF, LF]" using assms by auto
  with l tx show ?thesis by simp
qed


lemma collapse_Nil [simp]: "collapse_newlines [] = []"
  by (subst collapse_newlines.simps) simp

lemma collapse_unfold_run:
  "take 3 s = [LF, LF, LF] \<Longrightarrow>
   collapse_newlines s = [LF, LF] @ collapse_newlines (dropWhile (\<lambda>d. d = LF) s)"
  by (subst collapse_newlines.simps) (auto split: list.splits)

lemma collapse_unfold_char:
  "take 3 (c # cs) \<noteq> [LF, LF, LF] \<Longrightarrow> collapse_newlines (c # cs) = c # collapse_newlines cs"
  by (subst collapse_newlines.simps) (simp only: list.case if_False)


lemma collapse_append:
  "xs \<noteq> [] \<Longrightarrow> last xs \<noteq> LF \<Longrightarrow>
   collapse_newlines (xs @ rest) = collapse_newlines xs @ collapse_newlines rest"
proof (induction xs rule: collapse_newlines.induct)
  case (1 s)
  from "1.prems" obtain c cs where s: "s = c # cs" by (cases s) auto
  have lin: "last s \<in> set s" using "1.prems" by simp
  show ?case
  proof (cases "take 3 s = [LF, LF, LF]")
    case True
    let ?d = "dropWhile (\<lambda>d. d = LF) s"
    have dne: "?d \<noteq> []"
      using "1.prems"(2) lin by (auto simp only: dropWhile_eq_Nil_conv)
    have dl: "last ?d \<noteq> LF" using "1.prems"(2) last_dropWhile_keep [OF dne] by simp
    have dapp: "dropWhile (\<lambda>d. d = LF) (s @ rest) = ?d @ rest"
      using lin "1.prems"(2) by (rule dropWhile_append1)
    have t3: "take 3 (s @ rest) = [LF, LF, LF]"
      using True take3_append [OF "1.prems", of rest] by blast
    have "collapse_newlines (s @ rest) = [LF, LF] @ collapse_newlines (?d @ rest)"
      using collapse_unfold_run [OF t3] by (simp only: dapp)
    also have "\<dots> = [LF, LF] @ collapse_newlines ?d @ collapse_newlines rest"
      using "1.IH"(1) [OF s True dne dl] by (simp only:)
    also have "\<dots> = collapse_newlines s @ collapse_newlines rest"
      using collapse_unfold_run [OF True] by (simp only: append_assoc)
    finally show ?thesis .
  next
    case False
    have t3: "take 3 ((c # cs) @ rest) \<noteq> [LF, LF, LF]"
      using False take3_append [OF "1.prems", of rest] unfolding s by blast
    then have "take 3 (c # (cs @ rest)) \<noteq> [LF, LF, LF]" by simp
    from collapse_unfold_char [OF this]
    have a: "collapse_newlines (s @ rest) = c # collapse_newlines (cs @ rest)"
      unfolding s by simp
    have "take 3 (c # cs) \<noteq> [LF, LF, LF]" using False unfolding s .
    from collapse_unfold_char [OF this]
    have b: "collapse_newlines s = c # collapse_newlines cs"
      unfolding s .
    show ?thesis
    proof (cases "cs = []")
      case True
      then show ?thesis using a b by simp
    next
      case F: False
      then have "last cs \<noteq> LF" using "1.prems" s by simp
      from "1.IH"(2) [OF s False F this] a b show ?thesis by simp
    qed
  qed
qed


lemma dropWhile_replicate_LF:
  assumes "ys = [] \<or> hd ys \<noteq> LF"
  shows "dropWhile (\<lambda>d. d = LF) (replicate k LF @ ys) = ys"
proof (induction k)
  case 0
  then show ?case using assms by (cases ys) auto
next
  case (Suc k)
  then show ?case by simp
qed

lemma collapse_run:
  assumes "ys = [] \<or> hd ys \<noteq> LF"
  shows "collapse_newlines (replicate k LF @ ys)
           = replicate (if 3 \<le> k then 2 else k) LF @ collapse_newlines ys"
proof -
  have t2: "take 3 (LF # ys) \<noteq> [LF, LF, LF]" using assms by (cases ys) auto
  have t1: "take 3 (LF # LF # ys) \<noteq> [LF, LF, LF]" using assms by (cases ys) auto
  consider "k = 0" | "k = 1" | "k = 2" | "3 \<le> k" by linarith
  then show ?thesis
  proof cases
    case 1
    then show ?thesis by simp
  next
    case 2
    then show ?thesis using collapse_unfold_char [OF t2] by simp
  next
    case 3
    have r: "replicate k LF = [LF, LF]" using 3 by (simp add: numeral_2_eq_2)
    show ?thesis using collapse_unfold_char [OF t1] collapse_unfold_char [OF t2] 3 r by simp
  next
    case 4
    then obtain j where "k = 3 + j"
      using le_Suc_ex by blast
    then have k: "k = Suc (Suc (Suc j))" by simp
    have t: "take 3 (replicate k LF @ ys) = [LF, LF, LF]"
      unfolding k by (simp add: numeral_3_eq_3)
    show ?thesis
      using collapse_unfold_run [OF t] dropWhile_replicate_LF [OF assms, of k] 4
      by (simp add: numeral_2_eq_2)
  qed
qed

lemma collapse_no_LF:
  "LF \<notin> set s \<Longrightarrow> collapse_newlines s = s"
proof (induction s)
  case Nil
  then show ?case by simp
next
  case (Cons c s)
  then have "take 3 (c # s) \<noteq> [LF, LF, LF]" by auto
  from collapse_unfold_char [OF this] Cons show ?case by simp
qed

text \<open>
  Claim C6, as amended. The rule counts newline characters, not blank lines: a maximal
  run of \<open>k\<close> newlines between two texts becomes two newlines (one blank line) when
  \<open>k\<close> is 3 or more, that is, when there are two or more blank lines; a run of one or
  two newlines is left as it is. The texts on both sides are treated on their own.
\<close>

theorem collapse_newlines_runs:
  assumes "xs = [] \<or> last xs \<noteq> LF" and "ys = [] \<or> hd ys \<noteq> LF"
  shows "collapse_newlines (xs @ replicate k LF @ ys)
           = collapse_newlines xs @ replicate (if 3 \<le> k then 2 else k) LF @ collapse_newlines ys"
proof (cases "xs = []")
  case True
  then show ?thesis using collapse_run [OF assms(2)] by simp
next
  case False
  with assms(1) have "last xs \<noteq> LF" by simp
  from collapse_append [OF False this] collapse_run [OF assms(2)] show ?thesis by simp
qed

text \<open>Five newlines between two words become two; two newlines stay two.\<close>

theorem collapse_newlines_runs_witness:
  "collapse_newlines (''ab'' @ replicate 5 LF @ ''cd'') = ''ab'' @ [LF, LF] @ ''cd''
   \<and> collapse_newlines (''ab'' @ replicate 2 LF @ ''cd'') = ''ab'' @ [LF, LF] @ ''cd''"
  using collapse_newlines_runs [of "''ab''" "''cd''" 5] collapse_newlines_runs [of "''ab''" "''cd''" 2]
  by (simp add: collapse_no_LF numeral_2_eq_2)

text \<open>
  Claim C6 as stated fails on a run of two blank lines (three newlines): it is fewer
  than three blank lines, and it is collapsed to one blank line.
\<close>

theorem collapse_two_blank_lines_counterexample:
  "splitlines (''a'' @ [LF, LF, LF] @ ''b'') = [''a'', [], [], ''b'']
   \<and> collapse_newlines (''a'' @ [LF, LF, LF] @ ''b'') = ''a'' @ [LF, LF] @ ''b''
   \<and> collapse_newlines (''a'' @ [LF, LF, LF] @ ''b'') \<noteq> ''a'' @ [LF, LF, LF] @ ''b''"
  by code_simp

subsection \<open>The best image URL\<close>

lemma re_search_skip:
  "CHR ''_'' \<notin> set p \<Longrightarrow> re_search_size (p @ s) = re_search_size s"
  by (induction p) (auto simp: match_size_at_def)

lemma score_tokens:
  assumes "CHR ''_'' \<notin> set p"
  shows "score_image_url (p @ ''_xs.'' @ q) = 1"
    and "score_image_url (p @ ''_s.'' @ q) = 2"
    and "score_image_url (p @ ''_m.'' @ q) = 3"
    and "score_image_url (p @ ''_l.'' @ q) = 4"
    and "score_image_url (p @ ''_xl.'' @ q) = 5"
    and "score_image_url p = 0"
proof -
  have l: "lower_char CHR ''x'' = CHR ''x''" "lower_char CHR ''s'' = CHR ''s''"
    "lower_char CHR ''m'' = CHR ''m''" "lower_char CHR ''l'' = CHR ''l''"
    by (simp_all add: lower_char_def)
  have t: "size_tail (CHR ''.'' # q)" by (simp add: size_tail_def)
  show "score_image_url (p @ ''_xs.'' @ q) = 1"
    using assms l t by (simp add: score_image_url_def re_search_skip match_size_at_def size_alternatives_def lower_def)
  show "score_image_url (p @ ''_s.'' @ q) = 2"
    using assms l t by (simp add: score_image_url_def re_search_skip match_size_at_def size_alternatives_def lower_def)
  show "score_image_url (p @ ''_m.'' @ q) = 3"
    using assms l t by (simp add: score_image_url_def re_search_skip match_size_at_def size_alternatives_def lower_def)
  show "score_image_url (p @ ''_l.'' @ q) = 4"
    using assms l t by (simp add: score_image_url_def re_search_skip match_size_at_def size_alternatives_def lower_def)
  show "score_image_url (p @ ''_xl.'' @ q) = 5"
    using assms l t by (simp add: score_image_url_def re_search_skip match_size_at_def size_alternatives_def lower_def)
  show "score_image_url p = 0"
    using assms re_search_skip [of p "[]"] by (simp add: score_image_url_def)
qed

lemma sorted_last_max: "sorted xs \<Longrightarrow> x \<in> set xs \<Longrightarrow> x \<le> last xs"
  by (induction xs) (auto)

lemma pick_best_key_max:
  assumes "urls \<noteq> []"
  shows "\<exists>i < length urls. pick_best_image_url urls = Some (urls ! i)
           \<and> (\<forall>j < length urls. (score_image_url (urls ! j), - int j) \<le> (score_image_url (urls ! i), - int i))"
proof -
  let ?f = "\<lambda>(idx, sc, u). (sc :: int, - int idx)"
  let ?scored = "map (\<lambda>(idx, u). (idx, score_image_url u, u)) (enumerate 0 urls)"
  let ?S = "sort_key ?f ?scored"
  have len: "length ?S = length urls" by simp
  then have ne: "?S \<noteq> []" using assms by (metis length_0_conv)
  have setS: "set ?S = {(i, score_image_url (urls ! i), urls ! i) | i. i < length urls}"
    by (auto simp: in_set_enumerate_eq image_iff)
  have "last ?S \<in> set ?S" using ne by (rule last_in_set)
  then obtain i where i: "i < length urls" and li: "last ?S = (i, score_image_url (urls ! i), urls ! i)"
    unfolding setS by blast
  have pick: "pick_best_image_url urls = Some (urls ! i)"
    using assms li by (simp add: pick_best_image_url_def Let_def)
  have srt: "sorted (map ?f ?S)" by (rule sorted_sort_key)
  have mx: "\<forall>j < length urls. (score_image_url (urls ! j), - int j) \<le> (score_image_url (urls ! i), - int i)"
  proof (intro allI impI)
    fix j assume j: "j < length urls"
    then have "(j, score_image_url (urls ! j), urls ! j) \<in> set ?S" unfolding setS by blast
    then have "?f (j, score_image_url (urls ! j), urls ! j) \<in> set (map ?f ?S)"
      unfolding set_map by (rule imageI)
    then have "?f (j, score_image_url (urls ! j), urls ! j) \<le> last (map ?f ?S)"
      using srt sorted_last_max by blast
    also have "last (map ?f ?S) = ?f (last ?S)" using ne by (rule last_map)
    finally show "(score_image_url (urls ! j), - int j) \<le> (score_image_url (urls ! i), - int i)"
      unfolding li by simp
  qed
  from i pick mx show ?thesis by blast
qed

lemma score_range: "0 \<le> score_image_url u \<and> score_image_url u \<le> 5"
  by (auto simp: score_image_url_def split: option.splits if_splits)

text \<open>
  Claim C5, as amended. For a list of URLs that is not empty, \<open>_pick_best_image_url\<close>
  returns a URL of the list whose score is the highest of the list, and among the URLs
  with that score the one that comes first: every URL before the chosen one has a
  strictly lower score. (The scores are those of \<open>_score_image_url\<close>: 1 to 5 for the
  size tokens, 0 without one, see \<open>score_tokens\<close> and \<open>score_range\<close>.)
\<close>

theorem pick_best_image_url_earliest_max:
  assumes "urls \<noteq> []"
  shows "\<exists>i < length urls. pick_best_image_url urls = Some (urls ! i)
           \<and> (\<forall>j < length urls. score_image_url (urls ! j) \<le> score_image_url (urls ! i))
           \<and> (\<forall>j < i. score_image_url (urls ! j) < score_image_url (urls ! i))"
proof -
  from pick_best_key_max [OF assms] obtain i where i: "i < length urls"
    and pick: "pick_best_image_url urls = Some (urls ! i)"
    and mx: "\<forall>j < length urls. (score_image_url (urls ! j), - int j) \<le> (score_image_url (urls ! i), - int i)"
    by blast
  have a: "\<forall>j < length urls. score_image_url (urls ! j) \<le> score_image_url (urls ! i)"
    using mx by (auto simp: less_eq_prod_def)
  have b: "\<forall>j < i. score_image_url (urls ! j) < score_image_url (urls ! i)"
  proof (intro allI impI)
    fix j assume "j < i"
    with i have "j < length urls" by simp
    with mx have "(score_image_url (urls ! j), - int j) \<le> (score_image_url (urls ! i), - int i)"
      by blast
    with \<open>j < i\<close> show "score_image_url (urls ! j) < score_image_url (urls ! i)"
      by (auto simp: less_eq_prod_def)
  qed
  from i pick a b show ?thesis by blast
qed

text \<open>The theorem at a list of three URLs.\<close>

theorem pick_best_image_url_earliest_max_witness:
  "[''a_s.jpg'', ''b_xl.jpg'', ''c_xl.jpg''] \<noteq> []
   \<and> (\<exists>i < length [''a_s.jpg'', ''b_xl.jpg'', ''c_xl.jpg''].
         pick_best_image_url [''a_s.jpg'', ''b_xl.jpg'', ''c_xl.jpg'']
           = Some ([''a_s.jpg'', ''b_xl.jpg'', ''c_xl.jpg''] ! i)
         \<and> (\<forall>j < length [''a_s.jpg'', ''b_xl.jpg'', ''c_xl.jpg''].
               score_image_url ([''a_s.jpg'', ''b_xl.jpg'', ''c_xl.jpg''] ! j)
                 \<le> score_image_url ([''a_s.jpg'', ''b_xl.jpg'', ''c_xl.jpg''] ! i))
         \<and> (\<forall>j < i. score_image_url ([''a_s.jpg'', ''b_xl.jpg'', ''c_xl.jpg''] ! j)
                 < score_image_url ([''a_s.jpg'', ''b_xl.jpg'', ''c_xl.jpg''] ! i)))"
proof
  show ne: "[''a_s.jpg'', ''b_xl.jpg'', ''c_xl.jpg''] \<noteq> []" by simp
  show "\<exists>i < length [''a_s.jpg'', ''b_xl.jpg'', ''c_xl.jpg''].
         pick_best_image_url [''a_s.jpg'', ''b_xl.jpg'', ''c_xl.jpg'']
           = Some ([''a_s.jpg'', ''b_xl.jpg'', ''c_xl.jpg''] ! i)
         \<and> (\<forall>j < length [''a_s.jpg'', ''b_xl.jpg'', ''c_xl.jpg''].
               score_image_url ([''a_s.jpg'', ''b_xl.jpg'', ''c_xl.jpg''] ! j)
                 \<le> score_image_url ([''a_s.jpg'', ''b_xl.jpg'', ''c_xl.jpg''] ! i))
         \<and> (\<forall>j < i. score_image_url ([''a_s.jpg'', ''b_xl.jpg'', ''c_xl.jpg''] ! j)
                 < score_image_url ([''a_s.jpg'', ''b_xl.jpg'', ''c_xl.jpg''] ! i))"
    by (rule pick_best_image_url_earliest_max [OF ne])
qed

text \<open>
  Claim C5 as stated fails on an HTML text with two URLs of the CDN that have the same
  highest score: the scan finds both, and the first one is chosen, not the one that
  occurs latest.
\<close>

theorem pick_best_image_url_tie_counterexample:
  "score_image_url ''https://cms-imgp.jw-cdn.org/img/p/1_xl.jpg'' = 5
   \<and> score_image_url ''https://cms-imgp.jw-cdn.org/img/p/2_xl.jpg'' = 5
   \<and> CMS_IMAGE_RE_findall
         ''https://cms-imgp.jw-cdn.org/img/p/1_xl.jpg https://cms-imgp.jw-cdn.org/img/p/2_xl.jpg''
       = [''https://cms-imgp.jw-cdn.org/img/p/1_xl.jpg'',
          ''https://cms-imgp.jw-cdn.org/img/p/2_xl.jpg'']
   \<and> pick_best_image_url
         [''https://cms-imgp.jw-cdn.org/img/p/1_xl.jpg'',
          ''https://cms-imgp.jw-cdn.org/img/p/2_xl.jpg'']
       = Some ''https://cms-imgp.jw-cdn.org/img/p/1_xl.jpg''
   \<and> fallback_from_cdn
         ''https://cms-imgp.jw-cdn.org/img/p/1_xl.jpg https://cms-imgp.jw-cdn.org/img/p/2_xl.jpg''
       = Some \<lparr>url = ''https://cms-imgp.jw-cdn.org/img/p/1_xl.jpg'', alt = None, caption = None\<rparr>"
  by code_simp

subsection \<open>URL validation\<close>




section \<open>Properties of the document functions\<close>

subsection \<open>The container\<close>

lemma best_div_loop_inv:
  assumes "best_div_loop b bl ds = (r, rl)"
    and "case b of None \<Rightarrow> bl = 0
         | Some d \<Rightarrow> d \<in> S \<and> KEYWORD_RE (id_class_text d) \<and> length (get_text d) = bl"
    and "\<forall>d \<in> S. KEYWORD_RE (id_class_text d) \<longrightarrow> length (get_text d) \<le> bl"
  shows "(case r of None \<Rightarrow> rl = 0
          | Some d \<Rightarrow> d \<in> S \<union> set ds \<and> KEYWORD_RE (id_class_text d) \<and> length (get_text d) = rl)
       \<and> (\<forall>d \<in> S \<union> set ds. KEYWORD_RE (id_class_text d) \<longrightarrow> length (get_text d) \<le> rl)"
  using assms
proof (induction ds arbitrary: b bl S)
  case Nil
  then show ?case by (auto split: option.splits)
next
  case (Cons d ds)
  show ?case
  proof (cases "KEYWORD_RE (id_class_text d) \<and> length (get_text d) > bl")
    case True
    with Cons.prems(1) have run: "best_div_loop (Some d) (length (get_text d)) ds = (r, rl)"
      by (simp add: Let_def)
    have a: "case Some d of None \<Rightarrow> length (get_text d) = 0
         | Some d' \<Rightarrow> d' \<in> insert d S \<and> KEYWORD_RE (id_class_text d') \<and> length (get_text d') = length (get_text d)"
      using True by simp
    have b: "\<forall>d' \<in> insert d S. KEYWORD_RE (id_class_text d') \<longrightarrow> length (get_text d') \<le> length (get_text d)"
      using True Cons.prems(3) by auto
    from Cons.IH [OF run a b] show ?thesis
      by (auto split: option.splits)
  next
    case False
    with Cons.prems(1) have run: "best_div_loop b bl ds = (r, rl)"
      by (auto simp: Let_def split: if_splits)
    have a: "case b of None \<Rightarrow> bl = 0
         | Some d' \<Rightarrow> d' \<in> insert d S \<and> KEYWORD_RE (id_class_text d') \<and> length (get_text d') = bl"
      using Cons.prems(2) by (auto split: option.splits)
    have b: "\<forall>d' \<in> insert d S. KEYWORD_RE (id_class_text d') \<longrightarrow> length (get_text d') \<le> bl"
      using False Cons.prems(3) by auto
    from Cons.IH [OF run a b] show ?thesis
      by (auto split: option.splits)
  qed
qed

text \<open>
  Claim C3. \<open>_select_container\<close> returns the first \<open>article\<close> tag of the document when
  there is one; else the first \<open>main\<close> tag when there is one; else it looks at the \<open>div\<close>
  tags whose id and class text contains one of the keywords article, content, pub, body
  in any letter case (\<open>KEYWORD_RE\<close>): the result is such a \<open>div\<close> whose text is at least
  200 characters long and as long as the text of any such \<open>div\<close>, and there is no result
  exactly when every such \<open>div\<close> has a text shorter than 200 characters.
\<close>

theorem select_container_order:
  "(find_all [''article''] soup = a # rest \<longrightarrow> select_container soup = Some a)
   \<and> (find_all [''article''] soup = [] \<and> find_all [''main''] soup = m # rest'
        \<longrightarrow> select_container soup = Some m)
   \<and> (find_all [''article''] soup = [] \<and> find_all [''main''] soup = [] \<longrightarrow>
        (case select_container soup of
           Some d \<Rightarrow>
             d \<in> set (find_all [''div''] soup) \<and> KEYWORD_RE (id_class_text d)
             \<and> MIN_TEXT_LEN \<le> length (get_text d)
             \<and> (\<forall>d' \<in> set (find_all [''div''] soup).
                   KEYWORD_RE (id_class_text d') \<longrightarrow> length (get_text d') \<le> length (get_text d))
         | None \<Rightarrow>
             \<forall>d' \<in> set (find_all [''div''] soup).
               KEYWORD_RE (id_class_text d') \<longrightarrow> length (get_text d') < MIN_TEXT_LEN))"
proof (intro conjI impI)
  assume "find_all [''article''] soup = a # rest"
  then show "select_container soup = Some a"
    by (simp add: select_container_def find_tag_def)
next
  assume "find_all [''article''] soup = [] \<and> find_all [''main''] soup = m # rest'"
  then show "select_container soup = Some m"
    by (simp add: select_container_def find_tag_def)
next
  assume h: "find_all [''article''] soup = [] \<and> find_all [''main''] soup = []"
  obtain r rl where run: "best_div_loop None 0 (find_all [''div''] soup) = (r, rl)"
    by (cases "best_div_loop None 0 (find_all [''div''] soup)") auto
  from best_div_loop_inv [OF run, of "{}"]
  have inv: "(case r of None \<Rightarrow> rl = 0
          | Some d \<Rightarrow> d \<in> set (find_all [''div''] soup) \<and> KEYWORD_RE (id_class_text d) \<and> length (get_text d) = rl)
       \<and> (\<forall>d \<in> set (find_all [''div''] soup). KEYWORD_RE (id_class_text d) \<longrightarrow> length (get_text d) \<le> rl)"
    by (auto split: option.splits)
  have sel: "select_container soup = (case r of Some best \<Rightarrow> if rl \<ge> MIN_TEXT_LEN then Some best else None | None \<Rightarrow> None)"
    using h run by (simp add: select_container_def find_tag_def split: option.splits)
  show "case select_container soup of
           Some d \<Rightarrow>
             d \<in> set (find_all [''div''] soup) \<and> KEYWORD_RE (id_class_text d)
             \<and> MIN_TEXT_LEN \<le> length (get_text d)
             \<and> (\<forall>d' \<in> set (find_all [''div''] soup).
                   KEYWORD_RE (id_class_text d') \<longrightarrow> length (get_text d') \<le> length (get_text d))
         | None \<Rightarrow>
             \<forall>d' \<in> set (find_all [''div''] soup).
               KEYWORD_RE (id_class_text d') \<longrightarrow> length (get_text d') < MIN_TEXT_LEN"
  proof (cases r)
    case None
    with inv sel show ?thesis by (auto simp: MIN_TEXT_LEN_def)
  next
    case (Some d)
    with inv sel show ?thesis by (cases "rl \<ge> MIN_TEXT_LEN") (auto simp: not_le)
  qed
qed

text \<open>
  The theorem at a document with three blocks: the first has a keyword and a short
  text, the second a keyword (in capitals) and 200 characters, the third the longest
  text and no keyword. The second is chosen.
\<close>

theorem select_container_order_witness:
  "find_all [''article''] divs_soup = [] \<and> find_all [''main''] divs_soup = []
   \<and> select_container divs_soup
       = Some (Elem 2 ''div'' [(''class'', ''main-BODY'')] [Text (replicate 200 CHR ''x'')])"
proof -
  have h: "find_all [''article''] divs_soup = [] \<and> find_all [''main''] divs_soup = []"
    by code_simp
  have v: "select_container divs_soup
       = Some (Elem 2 ''div'' [(''class'', ''main-BODY'')] [Text (replicate 200 CHR ''x'')])"
    by code_simp
  from select_container_order [of divs_soup] h
  have "case select_container divs_soup of
           Some d \<Rightarrow>
             d \<in> set (find_all [''div''] divs_soup) \<and> KEYWORD_RE (id_class_text d)
             \<and> MIN_TEXT_LEN \<le> length (get_text d)
             \<and> (\<forall>d' \<in> set (find_all [''div''] divs_soup).
                   KEYWORD_RE (id_class_text d') \<longrightarrow> length (get_text d') \<le> length (get_text d))
         | None \<Rightarrow>
             \<forall>d' \<in> set (find_all [''div''] divs_soup).
               KEYWORD_RE (id_class_text d') \<longrightarrow> length (get_text d') < MIN_TEXT_LEN"
    by blast
  with h v show ?thesis by simp
qed

subsection \<open>Identities in the tree\<close>

lemma ids_of_append [simp]: "ids_of (xs @ ys) = ids_of xs @ ids_of ys"
  by (simp add: ids_of_def)

lemma ids_of_Cons_Elem [simp]: "ids_of (Elem i nm a cs # ns) = i # ids_of ns"
  by (simp add: ids_of_def)

lemma ids_of_Cons_Text [simp]: "ids_of (Text s # ns) = ids_of ns" "ids_of (Other s # ns) = ids_of ns"
  by (simp_all add: ids_of_def)

lemma ids_of_Nil [simp]: "ids_of [] = []"
  by (simp add: ids_of_def)

lemma ids_of_concat: "ids_of (concat xss) = concat (map ids_of xss)"
  by (induction xss) simp_all

lemma ids_simps [simp]:
  "ids (Text s) = []"
  "ids (Other s) = []"
  "ids (Elem i nm a cs) = i # concat (map ids cs)"
  by (simp_all add: ids_def [abs_def] ids_of_concat comp_def)

lemma ids_of_mem: "n \<in> set ns \<Longrightarrow> has_id i n \<Longrightarrow> i \<in> set (ids_of ns)"
  by (induction ns) (auto simp: has_id_def ids_of_def split: node.splits)

lemma descendants_trans:
  "ch \<in> set (children_of c) \<Longrightarrow> n \<in> set (descendants ch) \<Longrightarrow> n \<in> set (descendants c)"
  by (cases c) (auto simp: children_of_def)

lemma child_descendant:
  "ch \<in> set (children_of c) \<Longrightarrow> ch \<in> set (descendants c)"
  by (cases c) (auto simp: children_of_def)

lemma remove_id_keeps:
  "t \<in> set (ids c) \<Longrightarrow> (\<forall>n \<in> set (descendants c). has_id i n \<longrightarrow> t \<notin> set (ids n))
   \<Longrightarrow> t \<in> set (ids (remove_id i c))"
proof (induction c)
  case (Text s)
  then show ?case by simp
next
  case (Other s)
  then show ?case by simp
next
  case (Elem j nm a cs)
  show ?case
  proof (cases "t = j")
    case True
    then show ?thesis by simp
  next
    case False
    with Elem.prems(1) obtain ch where ch: "ch \<in> set cs" and t: "t \<in> set (ids ch)"
      by auto
    have chd: "ch \<in> set (descendants (Elem j nm a cs))" using ch by auto
    have nid: "\<not> has_id i ch" using Elem.prems(2) chd t by blast
    have "\<forall>n \<in> set (descendants ch). has_id i n \<longrightarrow> t \<notin> set (ids n)"
      using Elem.prems(2) ch by auto
    from Elem.IH [OF ch t this] have "t \<in> set (ids (remove_id i ch))" .
    with ch nid show ?thesis by auto
  qed
qed

lemma subseq_concat_map_filter:
  "(\<And>x. x \<in> set xs \<Longrightarrow> subseq (f x) (g x)) \<Longrightarrow>
   subseq (concat (map f (filter P xs))) (concat (map g xs))"
proof (induction xs)
  case Nil
  then show ?case by simp
next
  case (Cons x xs)
  then have ih: "subseq (concat (map f (filter P xs))) (concat (map g xs))" by simp
  show ?case
  proof (cases "P x")
    case True
    have "subseq (f x) (g x)" using Cons.prems by simp
    with ih True show ?thesis by (simp add: list_emb_append_mono)
  next
    case False
    with ih show ?thesis by (simp add: list_emb_append2)
  qed
qed

lemma subseq_ids_remove: "subseq (ids (remove_id i c)) (ids c)"
proof (induction c)
  case (Elem j nm a cs)
  have "subseq (concat (map (\<lambda>c. ids (remove_id i c)) (filter (\<lambda>c. \<not> has_id i c) cs)))
               (concat (map ids cs))"
    by (rule subseq_concat_map_filter) (rule Elem.IH)
  then show ?case by (simp add: comp_def)
qed simp_all

lemma subseq_distinct: "subseq xs ys \<Longrightarrow> distinct ys \<Longrightarrow> distinct xs"
proof (induction rule: list_emb.induct)
  case (list_emb_Cons2 x y xs ys)
  then have "x \<notin> set xs" by (auto elim: list_emb_set)
  with list_emb_Cons2 show ?case by simp
qed simp_all

lemma distinct_ids_remove: "distinct (ids c) \<Longrightarrow> distinct (ids (remove_id i c))"
  using subseq_ids_remove subseq_distinct by blast

lemma unique_by_id:
  "distinct (ids_of ns) \<Longrightarrow> n \<in> set ns \<Longrightarrow> m \<in> set ns \<Longrightarrow> has_id i n \<Longrightarrow> has_id i m
   \<Longrightarrow> n = m"
proof (induction ns)
  case Nil
  then show ?case by simp
next
  case (Cons x ns)
  show ?case
  proof (cases "has_id i x")
    case True
    then obtain nm a cs where x: "x = Elem i nm a cs"
      by (cases x) (auto simp: has_id_def)
    with Cons.prems(1) have "i \<notin> set (ids_of ns)" by simp
    then have "\<forall>k \<in> set ns. \<not> has_id i k" using ids_of_mem by blast
    with Cons.prems show ?thesis by auto
  next
    case False
    with Cons.prems have nm: "n \<in> set ns" "m \<in> set ns" by auto
    have "distinct (ids_of ns)" using Cons.prems(1) by (cases x) (auto simp: ids_of_def)
    from Cons.IH [OF this nm Cons.prems(4,5)] show ?thesis .
  qed
qed

lemma distinct_descendants: "distinct (ids c) \<Longrightarrow> distinct (ids_of (descendants c))"
  by (cases c) (auto simp: ids_def)

lemma lookup_Some:
  "lookup i c = Some tag \<Longrightarrow> tag \<in> set (descendants c) \<and> has_id i tag"
  by (auto simp: lookup_def find_Some_iff)

lemma remove_looked_up_keeps:
  assumes "distinct (ids c)" "lookup i c = Some tag" "t \<in> set (ids c)" "t \<notin> set (ids tag)"
  shows "t \<in> set (ids (remove_id i c))"
proof (rule remove_id_keeps [OF assms(3)], intro ballI impI)
  fix n assume "n \<in> set (descendants c)" "has_id i n"
  with unique_by_id [OF distinct_descendants [OF assms(1)]] lookup_Some [OF assms(2)]
  have "n = tag" by blast
  with assms(4) show "t \<notin> set (ids n)" by simp
qed

lemma metadata_step_keeps:
  assumes "distinct (ids c)" "t \<in> set (ids c)"
  shows "distinct (ids (metadata_step ttl (Some t) c i)) \<and> t \<in> set (ids (metadata_step ttl (Some t) c i))"
proof (cases "lookup i c")
  case None
  with assms show ?thesis by (simp add: metadata_step_def)
next
  case (Some tag)
  show ?thesis
  proof (cases "t \<in> set (ids tag)")
    case True
    with Some assms show ?thesis by (simp add: metadata_step_def contains_node_def)
  next
    case False
    from remove_looked_up_keeps [OF assms(1) Some assms(2) False] distinct_ids_remove [OF assms(1)]
    show ?thesis using Some assms by (simp add: metadata_step_def)
  qed
qed

lemma metadata_fold_keeps:
  "distinct (ids c) \<Longrightarrow> t \<in> set (ids c) \<Longrightarrow>
   distinct (ids (foldl (metadata_step ttl (Some t)) c is))
   \<and> t \<in> set (ids (foldl (metadata_step ttl (Some t)) c is))"
proof (induction "is" arbitrary: c)
  case Nil
  then show ?case by simp
next
  case (Cons i "is")
  from metadata_step_keeps [OF Cons.prems, of ttl i] Cons.IH show ?case by simp
qed


lemma descendants_remove:
  "n' \<in> set (descendants (remove_id i c)) \<Longrightarrow> \<exists>n \<in> set (descendants c). n' = remove_id i n"
proof (induction c arbitrary: n')
  case (Elem j nm a cs)
  from Elem.prems obtain ch where ch: "ch \<in> set cs" "\<not> has_id i ch"
    and n': "n' = remove_id i ch \<or> n' \<in> set (descendants (remove_id i ch))"
    by auto
  from n' show ?case
  proof
    assume "n' = remove_id i ch"
    with ch show ?thesis by auto
  next
    assume "n' \<in> set (descendants (remove_id i ch))"
    from Elem.IH [OF ch(1) this] obtain n where "n \<in> set (descendants ch)" "n' = remove_id i n"
      by blast
    with ch show ?thesis by auto
  qed
qed simp_all

lemma ids_descendant_subset:
  "n \<in> set (descendants c) \<Longrightarrow> set (ids n) \<subseteq> set (ids c)"
proof (induction c)
  case (Elem j nm a cs)
  then obtain ch where ch: "ch \<in> set cs" and n: "n = ch \<or> n \<in> set (descendants ch)"
    by auto
  from n have "set (ids n) \<subseteq> set (ids ch)" using Elem.IH [OF ch] by auto
  with ch show ?case by auto
qed simp_all

lemma descendants_transitive:
  "n \<in> set (descendants c) \<Longrightarrow> m \<in> set (descendants n) \<Longrightarrow> m \<in> set (descendants c)"
proof (induction c)
  case (Elem j nm a cs)
  then obtain ch where ch: "ch \<in> set cs" and n: "n = ch \<or> n \<in> set (descendants ch)"
    by auto
  from n Elem.prems(2) Elem.IH [OF ch] have "m \<in> set (descendants ch)" by auto
  with ch show ?case by auto
qed simp_all

lemma ids_of_has_node: "b \<in> set (ids_of ns) \<Longrightarrow> \<exists>m \<in> set ns. has_id b m"
  by (induction ns) (auto simp: ids_of_def has_id_def split: node.splits)

lemma covers_init:
  assumes d: "distinct (ids c)" and lb: "lookup b c = Some nb" and t: "t \<in> set (ids nb)"
  shows "covers b t c"
  unfolding covers_def
proof (intro ballI impI)
  fix n assume n: "n \<in> set (c # descendants c)" and b: "b \<in> set (ids n)"
  from lookup_Some [OF lb] have nb: "nb \<in> set (descendants c)" "has_id b nb" by auto
  from b obtain m where m: "m \<in> set (n # descendants n)" "has_id b m"
    using ids_of_has_node [of b "n # descendants n"] by (auto simp: ids_def)
  have root: "\<not> has_id b c"
  proof
    assume "has_id b c"
    then obtain nm a cs where c: "c = Elem b nm a cs" by (cases c) (auto simp: has_id_def)
    from ids_of_mem [OF nb] have "b \<in> set (ids_of (descendants c))" .
    with d c show False by (simp add: ids_def)
  qed
  have md: "m \<in> set (descendants c)"
  proof (cases "n = c")
    case True
    with m root show ?thesis by auto
  next
    case False
    with n have nd: "n \<in> set (descendants c)" by simp
    from m(1) have "m = n \<or> m \<in> set (descendants n)" by simp
    then show ?thesis
    proof
      assume "m = n" with nd show ?thesis by simp
    next
      assume "m \<in> set (descendants n)"
      with nd show ?thesis by (rule descendants_transitive)
    qed
  qed
  from unique_by_id [OF distinct_descendants [OF d] md nb(1) m(2) nb(2)] have "m = nb" .
  with m(1) t show "t \<in> set (ids n)"
    using ids_descendant_subset [of nb n] by auto
qed

lemma covers_remove:
  assumes d: "distinct (ids c)" and li: "lookup i c = Some tag" and t: "t \<notin> set (ids tag)"
    and cv: "covers b t c"
  shows "covers b t (remove_id i c)"
  unfolding covers_def
proof (intro ballI impI)
  fix n' assume n': "n' \<in> set (remove_id i c # descendants (remove_id i c))"
    and b: "b \<in> set (ids n')"
  from n' obtain n where n: "n \<in> set (c # descendants c)" and eq: "n' = remove_id i n"
    using descendants_remove [of n' i c] by auto
  from b eq have "b \<in> set (ids n)"
    using subseq_ids_remove [of i n] by (auto elim: list_emb_set)
  with cv n have tn: "t \<in> set (ids n)" unfolding covers_def by blast
  have "\<forall>m \<in> set (descendants n). has_id i m \<longrightarrow> t \<notin> set (ids m)"
  proof (intro ballI impI)
    fix m assume m: "m \<in> set (descendants n)" "has_id i m"
    have "m \<in> set (descendants c)"
      using n m(1) descendants_transitive by auto
    with unique_by_id [OF distinct_descendants [OF d]] lookup_Some [OF li] m(2)
    have "m = tag" by blast
    with t show "t \<notin> set (ids m)" by simp
  qed
  from remove_id_keeps [OF tn this] eq show "t \<in> set (ids n')" by simp
qed

lemma metadata_step_keeps_block:
  assumes "distinct (ids c)" "b \<in> set (ids c)" "covers b t c"
  shows "b \<in> set (ids (metadata_step ttl (Some t) c i))
         \<and> covers b t (metadata_step ttl (Some t) c i)"
proof (cases "lookup i c")
  case None
  with assms show ?thesis by (simp add: metadata_step_def)
next
  case (Some tag)
  show ?thesis
  proof (cases "t \<in> set (ids tag)")
    case True
    with Some assms show ?thesis by (simp add: metadata_step_def contains_node_def)
  next
    case False
    from lookup_Some [OF Some] have "tag \<in> set (c # descendants c)" by simp
    with assms(3) False have "b \<notin> set (ids tag)" unfolding covers_def by blast
    from remove_looked_up_keeps [OF assms(1) Some assms(2) this]
      covers_remove [OF assms(1) Some False assms(3)]
    show ?thesis using Some assms by (simp add: metadata_step_def)
  qed
qed

lemma metadata_fold_keeps_block:
  "distinct (ids c) \<Longrightarrow> t \<in> set (ids c) \<Longrightarrow> b \<in> set (ids c) \<Longrightarrow> covers b t c \<Longrightarrow>
   b \<in> set (ids (foldl (metadata_step ttl (Some t)) c is))"
proof (induction "is" arbitrary: c)
  case Nil
  then show ?case by simp
next
  case (Cons i "is")
  from metadata_step_keeps [OF Cons.prems(1,2), of ttl i]
    metadata_step_keeps_block [OF Cons.prems(1,3,4), of ttl i] Cons.IH
  show ?case by simp
qed

subsection \<open>The title node\<close>

text \<open>
  Claim C9. In a container whose tags have identities of their own, \<open>_strip_metadata_blocks\<close>
  removes neither the recorded title node nor a block that contains it: when the title
  node is in the container before, it is in the container after, and so is every tag
  below the container that contained it. This holds for every title, whatever the text
  and the attributes of these tags are.
\<close>

theorem strip_metadata_blocks_keeps_title_node:
  assumes "distinct (ids container)" and "title_node \<in> set (ids container)"
  shows "title_node \<in> set (ids (strip_metadata_blocks container ttl (Some title_node)))
       \<and> (\<forall>b block. lookup b container = Some block \<and> title_node \<in> set (ids block) \<longrightarrow>
             b \<in> set (ids (strip_metadata_blocks container ttl (Some title_node))))"
proof (intro conjI allI impI)
  show "title_node \<in> set (ids (strip_metadata_blocks container ttl (Some title_node)))"
    using metadata_fold_keeps [OF assms] by (simp add: strip_metadata_blocks_def)
next
  fix b block
  assume h: "lookup b container = Some block \<and> title_node \<in> set (ids block)"
  then have cv: "covers b title_node container"
    using covers_init [OF assms(1)] by blast
  from h lookup_Some have "block \<in> set (descendants container)" "has_id b block" by blast+
  then have "b \<in> set (ids container)"
    using ids_of_mem [of block "container # descendants container" b] by (simp add: ids_def)
  from metadata_fold_keeps_block [OF assms this cv]
  show "b \<in> set (ids (strip_metadata_blocks container ttl (Some title_node)))"
    by (simp add: strip_metadata_blocks_def)
qed

text \<open>
  The theorem at a container whose title heading reads like a publication name and
  sits in a block with a metadata class. With the heading recorded as the title node,
  the heading (3) and its block (2) stay and the share block (4) goes; with no title
  node recorded, the heading goes.
\<close>

theorem strip_metadata_blocks_keeps_title_node_witness:
  "distinct (ids metadata_main)
   \<and> find_title_node metadata_main (Some ''THE WATCHTOWER'') = Some 3
   \<and> 3 \<in> set (ids (strip_metadata_blocks metadata_main (Some ''THE WATCHTOWER'') (Some 3)))
   \<and> 2 \<in> set (ids (strip_metadata_blocks metadata_main (Some ''THE WATCHTOWER'') (Some 3)))
   \<and> 4 \<notin> set (ids (strip_metadata_blocks metadata_main (Some ''THE WATCHTOWER'') (Some 3)))
   \<and> 3 \<notin> set (ids (strip_metadata_blocks metadata_main (Some ''THE WATCHTOWER'') None))"
proof -
  have d: "distinct (ids metadata_main)" by code_simp
  have m: "3 \<in> set (ids metadata_main)" by code_simp
  have f: "find_title_node metadata_main (Some ''THE WATCHTOWER'') = Some 3" by code_simp
  have l: "lookup 2 metadata_main
             = Some (Elem 2 ''div'' [(''class'', ''publication'')]
                       [Elem 3 ''h2'' [] [Text ''THE WATCHTOWER''], Text ''Study edition''])"
    by code_simp
  have l3: "3 \<in> set (ids (Elem 2 ''div'' [(''class'', ''publication'')]
                       [Elem 3 ''h2'' [] [Text ''THE WATCHTOWER''], Text ''Study edition'']))"
    by code_simp
  have r: "4 \<notin> set (ids (strip_metadata_blocks metadata_main (Some ''THE WATCHTOWER'') (Some 3)))"
    "3 \<notin> set (ids (strip_metadata_blocks metadata_main (Some ''THE WATCHTOWER'') None))"
    by code_simp+
  from strip_metadata_blocks_keeps_title_node [OF d m, of "Some ''THE WATCHTOWER''"] l l3
  have "3 \<in> set (ids (strip_metadata_blocks metadata_main (Some ''THE WATCHTOWER'') (Some 3)))"
    "2 \<in> set (ids (strip_metadata_blocks metadata_main (Some ''THE WATCHTOWER'') (Some 3)))"
    by blast+
  with d f r show ?thesis by simp
qed

subsection \<open>Figures\<close>

text \<open>
  Claim C4 fails on the code: a figure with an image and a caption does not become an
  image followed by a caption paragraph. On the document of the repository's own test
  (\<open>test_extract_preserves_order_and_captions\<close>), for every base URL and whatever the
  libraries are, \<open>_normalize_figures\<close> raises: the error of \<open>urljoin\<close> if it has one for the
  image source, and else \<open>AttributeError\<close>, because \<open>_get_soup(figure)\<close> is \<open>None\<close>.
\<close>

theorem normalize_figures_caption_raises:
  "normalize_figures E caption_main b =
     (case urljoin E b ''/images/cover.jpg'' of Inl e \<Rightarrow> Inl e | Inr r \<Rightarrow> Inl AttributeError)"
proof -
  have s: "strip ''Cover caption'' = ''Cover caption''" by code_simp
  show ?thesis
    by (cases "urljoin E b ''/images/cover.jpg''")
       (simp_all add: normalize_figures_def caption_main_def find_all_def is_tag_def ids_of_def
          figure_step_def lookup_def has_id_def find_tag_def normalize_img_tag_def resolve_src_def
          first_truthy_def truthy_def get_attr_def attrs_of_def id_of_def lazy_attrs_def
          caption_text_of_def get_text_def children_of_def move_after_def
          new_caption_paragraph_def get_soup_def s)
qed

text \<open>
  The same document with the result of \<open>urljoin\<close> written out, and \<open>extract_from_html\<close>
  as a whole on it.
\<close>

lemma caption_example_raises:
  "normalize_figures (example_env caption_soup []) caption_main ''https://www.jw.org/en/''
     = Inl AttributeError
   \<and> extract_from_html (example_env caption_soup []) [] ''https://www.jw.org/en/''
     = Inl AttributeError"
  by code_simp

text \<open>
  A figure with an image and no caption is replaced by its image, with the source
  resolved.
\<close>

lemma normalize_figures_without_caption:
  assumes "urljoin E b ''/images/hero.jpg'' = Inr r"
  shows "normalize_figures E hero_article b =
           Inr (Elem 1 ''article'' []
                  [Elem 2 ''header'' [] [Elem 4 ''img'' [(''src'', r), (''alt'', ''Hero'')] []],
                   Elem 5 ''p'' [] [Text ''Body content.'']])"
  using assms
  by (simp add: normalize_figures_def hero_article_def find_all_def is_tag_def ids_of_def
        figure_step_def lookup_def has_id_def find_tag_def normalize_img_tag_def resolve_src_def
        first_truthy_def truthy_def get_attr_def attrs_of_def id_of_def lazy_attrs_def
        caption_text_of_def move_after_def)

subsection \<open>Image sources\<close>


lemma is_tag_map_attrs [simp]: "is_tag names (map_attrs i f n) = is_tag names n"
  by (cases n) (simp_all add: is_tag_def)

lemma is_tag_remove_id [simp]: "is_tag names (remove_id i n) = is_tag names n"
  by (cases n) (simp_all add: is_tag_def)

lemma id_of_map_attrs [simp]: "id_of (map_attrs i f n) = id_of n"
  by (cases n) (simp_all add: id_of_def)

lemma id_of_remove_id [simp]: "id_of (remove_id i n) = id_of n"
  by (cases n) (simp_all add: id_of_def)

lemma get_attr_remove_id [simp]: "get_attr (remove_id i n) k = get_attr n k"
  by (cases n) (simp_all add: get_attr_def attrs_of_def)

































subsection \<open>The fallback image\<close>

text \<open>
  Claim C8. Let the container after cleaning, the title and the result of the fallback
  image resolver be given. When the container has an image, the result of
  \<open>extract_from_html\<close> has the images of the container and the markdown of the
  container, and the fallback image has no part in it. When the container has no image
  and the resolver found none, the result has no image. When the container has no
  image and the resolver found one, the result has exactly this one image, with the
  title as its \<open>alt\<close> if it came without one, and the markdown has the image inserted.
\<close>

theorem extract_from_html_fallback_image:
  assumes "cleaned_container E html base_url = Inr (container, ttl, fallback_image)"
  shows "(collect_images container \<noteq> [] \<longrightarrow>
            extract_from_html E html base_url =
              Inr \<lparr>markdown = ensure_markdown_title (html_to_markdown E container) ttl,
                   title = ttl, source_url = base_url, images = collect_images container\<rparr>)
       \<and> (collect_images container = [] \<and> fallback_image = None \<longrightarrow>
            extract_from_html E html base_url =
              Inr \<lparr>markdown = ensure_markdown_title (html_to_markdown E container) ttl,
                   title = ttl, source_url = base_url, images = []\<rparr>)
       \<and> (\<forall>fb. collect_images container = [] \<and> fallback_image = Some fb \<longrightarrow>
            extract_from_html E html base_url =
              Inr \<lparr>markdown = insert_fallback_image
                                (ensure_markdown_title (html_to_markdown E container) ttl)
                                (fb\<lparr>alt := if truthy (alt fb) then alt fb else ttl\<rparr>),
                   title = ttl, source_url = base_url,
                   images = [fb\<lparr>alt := if truthy (alt fb) then alt fb else ttl\<rparr>]\<rparr>)"
  using assms
  by (cases fallback_image) (auto simp: extract_from_html_def Let_def)

lemma cms_fb:
  "extract_fallback_image (example_env cms_soup md) cms_html cms_soup b
     = Inr (Some \<lparr>url = ''https://cms-imgp.jw-cdn.org/img/p/1_xl.jpg'', alt = None, caption = None\<rparr>)"
proof -
  have m: "extract_meta_image cms_soup = None" by code_simp
  have j: "find_all [''script''] cms_soup = []" by code_simp
  have l: "extract_image_link cms_soup = (None, None)" by code_simp
  have f: "CMS_IMAGE_RE_findall cms_html = [''https://cms-imgp.jw-cdn.org/img/p/1_xl.jpg'']"
    by code_simp
  have p: "pick_best_image_url [''https://cms-imgp.jw-cdn.org/img/p/1_xl.jpg'']
             = Some ''https://cms-imgp.jw-cdn.org/img/p/1_xl.jpg''"
    by code_simp
  show ?thesis
    by (simp add: extract_fallback_image_def fallback_from_jsonld_def fallback_from_link_def
          fallback_from_cdn_def cdn_image_def extract_jsonld_image_def m j l f p)
qed

lemma cms_cc:
  "cleaned_container (example_env cms_soup md) cms_html ''https://www.jw.org/en/''
     = Inr (Elem 5 ''main'' [] [Elem 6 ''p'' [] [Text ''Body.'']], Some ''Sample Title'',
            Some \<lparr>url = ''https://cms-imgp.jw-cdn.org/img/p/1_xl.jpg'', alt = None, caption = None\<rparr>)"
proof -
  let ?E = "example_env cms_soup md"
  let ?m = "Elem 5 ''main'' [] [Elem 6 ''p'' [] [Text ''Body.'']]"
  have p: "parse_html ?E cms_html = cms_soup" by (simp add: example_env_def)
  have u: "remove_unwanted_tags cms_soup = cms_soup" by code_simp
  have s: "select_container cms_soup = Some ?m" by code_simp
  have t: "extract_title ?m cms_soup None = Some ''Sample Title''" by code_simp
  have n: "find_title_node ?m (Some ''Sample Title'') = None" by code_simp
  have c: "strip_player_controls ?m = Inr ?m" by code_simp
  have d: "strip_metadata_blocks ?m (Some ''Sample Title'') None = ?m" by code_simp
  have l: "normalize_links ?E ?m ''https://www.jw.org/en/'' = Inr ?m"
    by (simp add: normalize_links_def find_all_def is_tag_def ids_of_def)
  have f: "normalize_figures ?E ?m ''https://www.jw.org/en/'' = Inr ?m"
    by (simp add: normalize_figures_def find_all_def is_tag_def ids_of_def)
  have i: "normalize_images ?E ?m ''https://www.jw.org/en/'' = Inr ?m"
    by (simp add: normalize_images_def find_all_def is_tag_def ids_of_def)
  show ?thesis
    by (simp add: cleaned_container_def p cms_fb u choose_container_def s t n c d
          normalize_media_def l f i)
qed

text \<open>
  The theorem at a document without an image in its container and with an image URL
  of the CDN next to it: the result has this one image, with the title as its \<open>alt\<close>,
  and the markdown starts with the image.
\<close>

theorem extract_from_html_fallback_image_witness:
  "collect_images (Elem 5 ''main'' [] [Elem 6 ''p'' [] [Text ''Body.'']]) = []
   \<and> extract_from_html (example_env cms_soup ''Body.'') cms_html ''https://www.jw.org/en/''
     = Inr \<lparr>markdown = ''![Sample Title](https://cms-imgp.jw-cdn.org/img/p/1_xl.jpg)''
                         @ [LF, LF] @ ''Body.'',
            title = Some ''Sample Title'', source_url = ''https://www.jw.org/en/'',
            images = [\<lparr>url = ''https://cms-imgp.jw-cdn.org/img/p/1_xl.jpg'',
                       alt = Some ''Sample Title'', caption = None\<rparr>]\<rparr>"
proof -
  let ?E = "example_env cms_soup ''Body.''"
  let ?c = "Elem 5 ''main'' [] [Elem 6 ''p'' [] [Text ''Body.'']]"
  let ?fb = "\<lparr>url = ''https://cms-imgp.jw-cdn.org/img/p/1_xl.jpg'', alt = None, caption = None\<rparr>"
  have ci: "collect_images ?c = []" by code_simp
  have md: "insert_fallback_image (ensure_markdown_title (html_to_markdown ?E ?c) (Some ''Sample Title''))
               (?fb\<lparr>alt := Some ''Sample Title''\<rparr>)
            = ''![Sample Title](https://cms-imgp.jw-cdn.org/img/p/1_xl.jpg)'' @ [LF, LF] @ ''Body.''"
    by code_simp
  from extract_from_html_fallback_image [OF cms_cc [of "''Body.''"]] ci md show ?thesis
    by (simp add: truthy_def)
qed

end
